theory Spec2Isabelle
  imports Main "HOL-Library.Word"
begin

section \<open>MacroPad Plus firmware (software/macropad\_plus.c)\<close>

text \<open>
  The firmware is one C file: twenty-four user callbacks, three NeoPixel ring functions working
  on the global \<open>neoencoder\<close>, and \<open>main\<close> (a setup part and an endless polling loop).
  The embedding keeps the program variables in a record and records every call into the
  hardware libraries (NeoPixel, HID, delay, watchdog, bootloader) as one entry of a trace,
  in program order.  Pin levels are inputs: one sample per pin and loop iteration, as the
  loop body reads each pin once, and a sample stream for the busy-wait on encoder phase A.
\<close>

subsection \<open>Data\<close>

type_synonym u8 = "8 word"

text \<open>The consumer-control codes used by the callbacks (macros of src/usb\_composite.h), by name.\<close>

datatype con_code =
  CON_MEDIA_STOP | CON_MEDIA_PLAY | CON_MEDIA_PAUSE | CON_VOL_UP | CON_VOL_DOWN | CON_VOL_MUTE

datatype key = KEY1 | KEY2 | KEY3 | KEY4 | KEY5 | KEY6

text \<open>
  The callbacks of the customisation section: three per key (\<open>KEYn_PRESSED\<close>,
  \<open>KEYn_RELEASED\<close>, \<open>KEYn_HOLD\<close>) and six for the encoder.
\<close>

datatype event =
  PRESSED key | RELEASED key | HOLD key
  | CW_ACTION | CW_RELEASED | CCW_ACTION | CCW_RELEASED
  | SW_PRESSED | SW_RELEASED

text \<open>
  One trace entry per library call; \<open>Callback e\<close> marks the entry into the callback
  function of event \<open>e\<close> (several callbacks have the same body, so the body alone would
  not tell which one ran).
\<close>

datatype effect =
  NEO_init | CLK_config | DLY_ms nat | NEO_clearAll | NEO_sendByte u8 | Enter_bootloader
  | HID_init | WDT_start | WDT_reset
  | NEO_writeHue u8 u8 u8 | NEO_clearPixel u8 | NEO_update
  | CON_press con_code | CON_release | KBD_press char | KBD_release char
  | Callback event

record state =
  key1last :: bool
  key2last :: bool
  key3last :: bool
  key4last :: bool
  key5last :: bool
  key6last :: bool
  isSwitchPressed :: bool
  neoencoder :: u8
  trace :: "effect list"

text \<open>Pin levels seen by one loop iteration (\<open>True\<close> is high).\<close>

record inputs =
  PIN_KEY1 :: bool
  PIN_KEY2 :: bool
  PIN_KEY3 :: bool
  PIN_KEY4 :: bool
  PIN_KEY5 :: bool
  PIN_KEY6 :: bool
  PIN_ENC_A :: bool
  PIN_ENC_B :: bool
  PIN_ENC_SW :: bool
  PIN_ENC_A_wait :: "nat \<Rightarrow> bool"

text \<open>
  A point from which control does not come back to the caller, with the state reached
  there: the bootloader was entered, or phase A never went high again in the busy-wait.
\<close>

datatype halted = Bootloader state | Stuck state

definition emit :: "effect \<Rightarrow> state \<Rightarrow> state" where
  "emit e s = s\<lparr>trace := trace s @ [e]\<rparr>"

text \<open>A block of statements, run in order.\<close>

definition exec :: "(state \<Rightarrow> state) list \<Rightarrow> state \<Rightarrow> state" where
  "exec fs s = fold (\<lambda>f. f) fs s"

subsection \<open>Callbacks\<close>

definition KEY1_PRESSED :: "state \<Rightarrow> state" where
  "KEY1_PRESSED = exec [emit (Callback (PRESSED KEY1)), emit (CON_press CON_MEDIA_STOP)]"

definition KEY1_RELEASED :: "state \<Rightarrow> state" where
  "KEY1_RELEASED = exec [emit (Callback (RELEASED KEY1)), emit CON_release]"

definition KEY1_HOLD :: "state \<Rightarrow> state" where
  "KEY1_HOLD = exec [emit (Callback (HOLD KEY1))]"

definition KEY2_PRESSED :: "state \<Rightarrow> state" where
  "KEY2_PRESSED = exec [emit (Callback (PRESSED KEY2)), emit (CON_press CON_MEDIA_PLAY)]"

definition KEY2_RELEASED :: "state \<Rightarrow> state" where
  "KEY2_RELEASED = exec [emit (Callback (RELEASED KEY2)), emit CON_release]"

definition KEY2_HOLD :: "state \<Rightarrow> state" where
  "KEY2_HOLD = exec [emit (Callback (HOLD KEY2))]"

definition KEY3_PRESSED :: "state \<Rightarrow> state" where
  "KEY3_PRESSED = exec [emit (Callback (PRESSED KEY3)), emit (CON_press CON_MEDIA_PAUSE)]"

definition KEY3_RELEASED :: "state \<Rightarrow> state" where
  "KEY3_RELEASED = exec [emit (Callback (RELEASED KEY3)), emit CON_release]"

definition KEY3_HOLD :: "state \<Rightarrow> state" where
  "KEY3_HOLD = exec [emit (Callback (HOLD KEY3))]"

definition KEY4_PRESSED :: "state \<Rightarrow> state" where
  "KEY4_PRESSED = exec [emit (Callback (PRESSED KEY4)), emit (KBD_press CHR ''d'')]"

definition KEY4_RELEASED :: "state \<Rightarrow> state" where
  "KEY4_RELEASED = exec [emit (Callback (RELEASED KEY4)), emit (KBD_release CHR ''d'')]"

definition KEY4_HOLD :: "state \<Rightarrow> state" where
  "KEY4_HOLD = exec [emit (Callback (HOLD KEY4))]"

definition KEY5_PRESSED :: "state \<Rightarrow> state" where
  "KEY5_PRESSED = exec [emit (Callback (PRESSED KEY5)), emit (KBD_press CHR ''e'')]"

definition KEY5_RELEASED :: "state \<Rightarrow> state" where
  "KEY5_RELEASED = exec [emit (Callback (RELEASED KEY5)), emit (KBD_release CHR ''e'')]"

definition KEY5_HOLD :: "state \<Rightarrow> state" where
  "KEY5_HOLD = exec [emit (Callback (HOLD KEY5))]"

definition KEY6_PRESSED :: "state \<Rightarrow> state" where
  "KEY6_PRESSED = exec [emit (Callback (PRESSED KEY6)), emit (KBD_press CHR ''f'')]"

definition KEY6_RELEASED :: "state \<Rightarrow> state" where
  "KEY6_RELEASED = exec [emit (Callback (RELEASED KEY6)), emit (KBD_release CHR ''f'')]"

definition KEY6_HOLD :: "state \<Rightarrow> state" where
  "KEY6_HOLD = exec [emit (Callback (HOLD KEY6))]"

definition ENC_CW_ACTION :: "state \<Rightarrow> state" where
  "ENC_CW_ACTION = exec [emit (Callback CW_ACTION), emit (CON_press CON_VOL_UP)]"

definition ENC_CW_RELEASED :: "state \<Rightarrow> state" where
  "ENC_CW_RELEASED = exec [emit (Callback CW_RELEASED), emit CON_release]"

definition ENC_CCW_ACTION :: "state \<Rightarrow> state" where
  "ENC_CCW_ACTION = exec [emit (Callback CCW_ACTION), emit (CON_press CON_VOL_DOWN)]"

definition ENC_CCW_RELEASED :: "state \<Rightarrow> state" where
  "ENC_CCW_RELEASED = exec [emit (Callback CCW_RELEASED), emit CON_release]"

definition ENC_SW_PRESSED :: "state \<Rightarrow> state" where
  "ENC_SW_PRESSED = exec [emit (Callback SW_PRESSED), emit (CON_press CON_VOL_MUTE)]"

definition ENC_SW_RELEASED :: "state \<Rightarrow> state" where
  "ENC_SW_RELEASED = exec [emit (Callback SW_RELEASED), emit CON_release]"

subsection \<open>NeoPixel configuration\<close>

definition NEO_BRIGHT_KEYS :: u8 where "NEO_BRIGHT_KEYS = 2"
definition NEO_BRIGHT_ENC :: u8 where "NEO_BRIGHT_ENC = 0"

definition NEO_KEY1 :: u8 where "NEO_KEY1 = 0"
definition NEO_KEY2 :: u8 where "NEO_KEY2 = 32"
definition NEO_KEY3 :: u8 where "NEO_KEY3 = 64"
definition NEO_KEY4 :: u8 where "NEO_KEY4 = 96"
definition NEO_KEY5 :: u8 where "NEO_KEY5 = 128"
definition NEO_KEY6 :: u8 where "NEO_KEY6 = 160"

subsection \<open>NeoPixel ring functions\<close>

text \<open>
  The \<open>for\<close> loop of \<open>NEO_encoder_update\<close>: \<open>i\<close> and \<open>j\<close> are \<open>uint8_t\<close>, so
  \<open>j += 16\<close> and \<open>j -= 192\<close> are taken modulo 256.
\<close>

function ring_loop :: "u8 \<Rightarrow> u8 \<Rightarrow> state \<Rightarrow> state" where
  "ring_loop i j s =
     (if i < 18 then
        (let s1 = emit (NEO_writeHue i j NEO_BRIGHT_ENC) s;
             j1 = j + 16;
             j2 = (if j1 \<ge> 192 then j1 - 192 else j1)
         in ring_loop (i + 1) j2 s1)
      else s)"
  by pat_completeness auto
termination
proof (relation "measure (\<lambda>(i, j, s). 18 - unat i)")
  show "wf (measure (\<lambda>(i, j, s). 18 - unat i))" by simp
next
  fix i j :: u8 and s s1 :: state and j1 j2 :: u8
  assume "i < 18"
  then have "unat i < 18" by (simp add: word_less_nat_alt)
  then have "unat (i + 1) = unat i + 1" by (simp add: unat_word_ariths)
  with \<open>unat i < 18\<close> show "((i + 1, j2, s1), (i, j, s)) \<in> measure (\<lambda>(i, j, s). 18 - unat i)"
    by simp
qed

declare ring_loop.simps [simp del]

definition NEO_encoder_update :: "state \<Rightarrow> state" where
  "NEO_encoder_update s = emit NEO_update (ring_loop 6 (neoencoder s) s)"

definition NEO_encoder_cw :: "state \<Rightarrow> state" where
  "NEO_encoder_cw s =
     (let s1 = s\<lparr>neoencoder := neoencoder s + 8\<rparr>;
          s2 = (if neoencoder s1 \<ge> 192 then s1\<lparr>neoencoder := neoencoder s1 - 192\<rparr> else s1)
      in NEO_encoder_update s2)"

definition NEO_encoder_ccw :: "state \<Rightarrow> state" where
  "NEO_encoder_ccw s =
     (let s1 = s\<lparr>neoencoder := neoencoder s - 8\<rparr>;
          s2 = (if neoencoder s1 \<ge> 192 then s1\<lparr>neoencoder := neoencoder s1 - 64\<rparr> else s1)
      in NEO_encoder_update s2)"

subsection \<open>Main function: the loop body\<close>

text \<open>
  The six key blocks of the loop, one definition per block as in the source.  The argument
  \<open>pin\<close> is the value of \<open>PIN_read(PIN_KEYn)\<close> in this iteration.
\<close>

definition handle_key1 :: "bool \<Rightarrow> state \<Rightarrow> state" where
  "handle_key1 pin s =
     (if (\<not> pin) \<noteq> key1last s then
        (let s1 = s\<lparr>key1last := \<not> key1last s\<rparr>
         in if key1last s1
            then exec [emit (NEO_writeHue 0 NEO_KEY1 NEO_BRIGHT_KEYS), emit NEO_update,
                       KEY1_PRESSED] s1
            else exec [emit (NEO_clearPixel 0), emit NEO_update, KEY1_RELEASED] s1)
      else if key1last s then KEY1_HOLD s
      else s)"

definition handle_key2 :: "bool \<Rightarrow> state \<Rightarrow> state" where
  "handle_key2 pin s =
     (if (\<not> pin) \<noteq> key2last s then
        (let s1 = s\<lparr>key2last := \<not> key2last s\<rparr>
         in if key2last s1
            then exec [emit (NEO_writeHue 1 NEO_KEY2 NEO_BRIGHT_KEYS), emit NEO_update,
                       KEY2_PRESSED] s1
            else exec [emit (NEO_clearPixel 1), emit NEO_update, KEY2_RELEASED] s1)
      else if key2last s then KEY2_HOLD s
      else s)"

definition handle_key3 :: "bool \<Rightarrow> state \<Rightarrow> state" where
  "handle_key3 pin s =
     (if (\<not> pin) \<noteq> key3last s then
        (let s1 = s\<lparr>key3last := \<not> key3last s\<rparr>
         in if key3last s1
            then exec [emit (NEO_writeHue 2 NEO_KEY3 NEO_BRIGHT_KEYS), emit NEO_update,
                       KEY3_PRESSED] s1
            else exec [emit (NEO_clearPixel 2), emit NEO_update, KEY3_RELEASED] s1)
      else if key3last s then KEY3_HOLD s
      else s)"

definition handle_key4 :: "bool \<Rightarrow> state \<Rightarrow> state" where
  "handle_key4 pin s =
     (if (\<not> pin) \<noteq> key4last s then
        (let s1 = s\<lparr>key4last := \<not> key4last s\<rparr>
         in if key4last s1
            then exec [emit (NEO_writeHue 3 NEO_KEY4 NEO_BRIGHT_KEYS), emit NEO_update,
                       KEY4_PRESSED] s1
            else exec [emit (NEO_clearPixel 3), emit NEO_update, KEY4_RELEASED] s1)
      else if key4last s then KEY4_HOLD s
      else s)"

definition handle_key5 :: "bool \<Rightarrow> state \<Rightarrow> state" where
  "handle_key5 pin s =
     (if (\<not> pin) \<noteq> key5last s then
        (let s1 = s\<lparr>key5last := \<not> key5last s\<rparr>
         in if key5last s1
            then exec [emit (NEO_writeHue 4 NEO_KEY5 NEO_BRIGHT_KEYS), emit NEO_update,
                       KEY5_PRESSED] s1
            else exec [emit (NEO_clearPixel 4), emit NEO_update, KEY5_RELEASED] s1)
      else if key5last s then KEY5_HOLD s
      else s)"

definition handle_key6 :: "bool \<Rightarrow> state \<Rightarrow> state" where
  "handle_key6 pin s =
     (if (\<not> pin) \<noteq> key6last s then
        (let s1 = s\<lparr>key6last := \<not> key6last s\<rparr>
         in if key6last s1
            then exec [emit (NEO_writeHue 5 NEO_KEY6 NEO_BRIGHT_KEYS), emit NEO_update,
                       KEY6_PRESSED] s1
            else exec [emit (NEO_clearPixel 5), emit NEO_update, KEY6_RELEASED] s1)
      else if key6last s then KEY6_HOLD s
      else s)"

text \<open>
  The busy-wait \<open>while(!PIN_read(PIN_ENC_A));\<close> on the stream \<open>a\<close> of later samples of
  phase A: it returns the index of the first high sample, and does not return when there
  is none.
\<close>

partial_function (option) wait_detent :: "(nat \<Rightarrow> bool) \<Rightarrow> nat \<Rightarrow> nat option" where
  "wait_detent a n = (if \<not> a n then wait_detent a (Suc n) else Some n)"

declare wait_detent.simps [code]

text \<open>The two branches on phase B, taken when phase A reads low.\<close>

definition handle_rotation :: "bool \<Rightarrow> state \<Rightarrow> state" where
  "handle_rotation pin_b s =
     (if pin_b
      then exec [ENC_CW_ACTION, NEO_encoder_cw, emit (DLY_ms 5), ENC_CW_RELEASED] s
      else exec [ENC_CCW_ACTION, NEO_encoder_ccw, emit (DLY_ms 5), ENC_CCW_RELEASED] s)"

text \<open>The \<open>else\<close> branch of the encoder block: the encoder switch.\<close>

definition handle_switch :: "bool \<Rightarrow> state \<Rightarrow> state" where
  "handle_switch pin_sw s =
     (if \<not> isSwitchPressed s \<and> \<not> pin_sw
      then exec [ENC_SW_PRESSED, (\<lambda>s. s\<lparr>isSwitchPressed := True\<rparr>)] s
      else if isSwitchPressed s \<and> pin_sw
      then exec [ENC_SW_RELEASED, (\<lambda>s. s\<lparr>isSwitchPressed := False\<rparr>)] s
      else s)"

definition handle_encoder :: "inputs \<Rightarrow> state \<Rightarrow> halted + state" where
  "handle_encoder inp s =
     (if \<not> PIN_ENC_A inp then
        (let s1 = handle_rotation (PIN_ENC_B inp) s
         in case wait_detent (PIN_ENC_A_wait inp) 0 of
              None \<Rightarrow> Inl (Stuck s1)
            | Some n \<Rightarrow> Inr s1)
      else Inr (handle_switch (PIN_ENC_SW inp) s))"

text \<open>The six key blocks, in the order of the loop.\<close>

definition handle_keys :: "inputs \<Rightarrow> state \<Rightarrow> state" where
  "handle_keys inp =
     exec [handle_key1 (PIN_KEY1 inp), handle_key2 (PIN_KEY2 inp), handle_key3 (PIN_KEY3 inp),
           handle_key4 (PIN_KEY4 inp), handle_key5 (PIN_KEY5 inp), handle_key6 (PIN_KEY6 inp)]"

text \<open>One iteration of \<open>while(1)\<close>.\<close>

definition loop_body :: "inputs \<Rightarrow> state \<Rightarrow> halted + state" where
  "loop_body inp s =
     (let s1 = handle_keys inp s
      in case handle_encoder inp s1 of
           Inl h \<Rightarrow> Inl h
         | Inr s2 \<Rightarrow> Inr (exec [emit (DLY_ms 1), emit WDT_reset] s2))"

text \<open>
  \<open>while(1)\<close> never ends; \<open>run\<close> performs one iteration per element of a finite list
  of input samples and stops early when an iteration does not return.
\<close>

fun run :: "inputs list \<Rightarrow> state \<Rightarrow> halted + state" where
  "run [] s = Inr s"
| "run (inp # ins) s = (case loop_body inp s of Inl h \<Rightarrow> Inl h | Inr s1 \<Rightarrow> run ins s1)"

subsection \<open>Main function: setup\<close>

text \<open>The local and global variables as initialised: all flags 0, \<open>neoencoder = 0\<close>.\<close>

definition initial_state :: state where
  "initial_state =
     \<lparr>key1last = False, key2last = False, key3last = False, key4last = False,
      key5last = False, key6last = False, isSwitchPressed = False, neoencoder = 0,
      trace = []\<rparr>"

text \<open>The loop \<open>for(i=3*NEO_COUNT; i; i--) NEO_sendByte(127);\<close> with \<open>i\<close> a \<open>uint8_t\<close>.\<close>

function light_loop :: "u8 \<Rightarrow> state \<Rightarrow> state" where
  "light_loop i s = (if i \<noteq> 0 then light_loop (i - 1) (emit (NEO_sendByte 127) s) else s)"
  by pat_completeness auto
termination
proof (relation "measure (\<lambda>(i, s). unat i)")
  show "wf (measure (\<lambda>(i, s). unat i))" by simp
next
  fix i :: u8 and s :: state
  assume nz: "i \<noteq> 0"
  then have "unat i \<noteq> 0" by (simp add: unat_eq_0)
  moreover from nz have "unat (i - 1) = unat i - 1" by (rule unat_minus_one)
  ultimately have "unat (i - 1) < unat i" by simp
  then show "((i - 1, emit (NEO_sendByte 127) s), (i, s)) \<in> measure (\<lambda>(i, s). unat i)"
    by simp
qed

declare light_loop.simps [simp del]

text \<open>
  Modelled from the spec: \<open>BOOT_now\<close> is declared in src/system.h, which is not among the
  sources.  The spec lists it as \<open>enterFirmwareUpdateMode()\<close> (never returns): the call
  is recorded and control does not come back.
\<close>

definition BOOT_now :: "state \<Rightarrow> halted + state" where
  "BOOT_now s = Inl (Bootloader (emit Enter_bootloader s))"

text \<open>
  The setup part of \<open>main\<close>, up to the loop.  \<open>NEO_COUNT\<close> is a macro of src/config.h,
  which is not among the sources; it is the parameter \<open>neo_count\<close>.  \<open>pin_sw\<close> is the
  value of \<open>PIN_read(PIN_ENC_SW)\<close> at this moment.
\<close>

definition main_setup :: "nat \<Rightarrow> bool \<Rightarrow> halted + state" where
  "main_setup neo_count pin_sw =
     (let s1 = exec [emit NEO_init, emit CLK_config, emit (DLY_ms 10), emit NEO_clearAll]
                 initial_state;
          r = (if \<not> pin_sw then BOOT_now (light_loop (of_nat (3 * neo_count)) s1) else Inr s1)
      in case r of
           Inl h \<Rightarrow> Inl h
         | Inr s2 \<Rightarrow>
             Inr (exec [emit HID_init, emit (DLY_ms 500), emit WDT_start, NEO_encoder_update] s2))"

definition main :: "nat \<Rightarrow> bool \<Rightarrow> inputs list \<Rightarrow> halted + state" where
  "main neo_count pin_sw ins =
     (case main_setup neo_count pin_sw of Inl h \<Rightarrow> Inl h | Inr s \<Rightarrow> run ins s)"

subsection \<open>Vocabulary for the statements\<close>

text \<open>The six key blocks, their flags, pins, pixels and hues, indexed by the key.\<close>

fun handle_key :: "key \<Rightarrow> bool \<Rightarrow> state \<Rightarrow> state" where
  "handle_key KEY1 = handle_key1"
| "handle_key KEY2 = handle_key2"
| "handle_key KEY3 = handle_key3"
| "handle_key KEY4 = handle_key4"
| "handle_key KEY5 = handle_key5"
| "handle_key KEY6 = handle_key6"

fun keylast :: "key \<Rightarrow> state \<Rightarrow> bool" where
  "keylast KEY1 = key1last"
| "keylast KEY2 = key2last"
| "keylast KEY3 = key3last"
| "keylast KEY4 = key4last"
| "keylast KEY5 = key5last"
| "keylast KEY6 = key6last"

fun PIN_KEY :: "key \<Rightarrow> inputs \<Rightarrow> bool" where
  "PIN_KEY KEY1 = PIN_KEY1"
| "PIN_KEY KEY2 = PIN_KEY2"
| "PIN_KEY KEY3 = PIN_KEY3"
| "PIN_KEY KEY4 = PIN_KEY4"
| "PIN_KEY KEY5 = PIN_KEY5"
| "PIN_KEY KEY6 = PIN_KEY6"

text \<open>The pixel a key block writes and the hue macro it passes.\<close>

fun key_pixel :: "key \<Rightarrow> u8" where
  "key_pixel KEY1 = 0"
| "key_pixel KEY2 = 1"
| "key_pixel KEY3 = 2"
| "key_pixel KEY4 = 3"
| "key_pixel KEY5 = 4"
| "key_pixel KEY6 = 5"

fun key_hue :: "key \<Rightarrow> u8" where
  "key_hue KEY1 = NEO_KEY1"
| "key_hue KEY2 = NEO_KEY2"
| "key_hue KEY3 = NEO_KEY3"
| "key_hue KEY4 = NEO_KEY4"
| "key_hue KEY5 = NEO_KEY5"
| "key_hue KEY6 = NEO_KEY6"

text \<open>The library calls in the bodies of a key's PRESSED and RELEASED callbacks.\<close>

fun pressed_body :: "key \<Rightarrow> effect list" where
  "pressed_body KEY1 = [CON_press CON_MEDIA_STOP]"
| "pressed_body KEY2 = [CON_press CON_MEDIA_PLAY]"
| "pressed_body KEY3 = [CON_press CON_MEDIA_PAUSE]"
| "pressed_body KEY4 = [KBD_press CHR ''d'']"
| "pressed_body KEY5 = [KBD_press CHR ''e'']"
| "pressed_body KEY6 = [KBD_press CHR ''f'']"

fun released_body :: "key \<Rightarrow> effect list" where
  "released_body KEY1 = [CON_release]"
| "released_body KEY2 = [CON_release]"
| "released_body KEY3 = [CON_release]"
| "released_body KEY4 = [KBD_release CHR ''d'']"
| "released_body KEY5 = [KBD_release CHR ''e'']"
| "released_body KEY6 = [KBD_release CHR ''f'']"

text \<open>What a step appended to the trace.\<close>

definition new_effects :: "state \<Rightarrow> state \<Rightarrow> effect list" where
  "new_effects s s' = drop (length (trace s)) (trace s')"

text \<open>The state at which a run ended, returned or not.\<close>

fun final_state :: "halted + state \<Rightarrow> state" where
  "final_state (Inr s) = s"
| "final_state (Inl (Bootloader s)) = s"
| "final_state (Inl (Stuck s)) = s"

text \<open>
  The frame the ring shows at phase \<open>p\<close>, in the spec's words: pixel \<open>6 + k\<close> gets hue
  \<open>(p + 16 k) mod 192\<close> for the twelve offsets \<open>k\<close>, at the ring's brightness, then one flush.
\<close>

definition ring_frame :: "nat \<Rightarrow> effect list" where
  "ring_frame p =
     map (\<lambda>k. NEO_writeHue (of_nat (6 + k)) (of_nat ((p + 16 * k) mod 192)) NEO_BRIGHT_ENC)
       [0..<12] @ [NEO_update]"

text \<open>The callbacks entered, in order, among the entries of a trace.\<close>

fun callbacks :: "effect list \<Rightarrow> event list" where
  "callbacks [] = []"
| "callbacks (Callback e # es) = e # callbacks es"
| "callbacks (x # es) = callbacks es"

text \<open>
  The key rule in the spec's words, as the list of calls one key block makes: \<open>pin\<close> is
  the raw level, \<open>lastPressed\<close> the stored flag.  The key is pressed now when the level is low.
  On a transition to pressed the key's pixel is lit at its hue and the PRESSED callback
  runs; on a transition to released the pixel is cleared and the RELEASED callback runs;
  without a transition the HOLD callback runs while the flag is set.
\<close>

definition key_rule :: "key \<Rightarrow> bool \<Rightarrow> bool \<Rightarrow> effect list" where
  "key_rule k pin lastPressed =
     (let currentPressed = \<not> pin in
      if currentPressed \<noteq> lastPressed then
        (if currentPressed
         then [NEO_writeHue (key_pixel k) (key_hue k) NEO_BRIGHT_KEYS, NEO_update,
               Callback (PRESSED k)] @ pressed_body k
         else [NEO_clearPixel (key_pixel k), NEO_update, Callback (RELEASED k)]
               @ released_body k)
      else if lastPressed then [Callback (HOLD k)]
      else [])"

text \<open>The events of one key among a list of events.\<close>

definition key_events :: "key \<Rightarrow> event list \<Rightarrow> event list" where
  "key_events k = filter (\<lambda>e. e = PRESSED k \<or> e = RELEASED k \<or> e = HOLD k)"

text \<open>
  The callbacks the key rule gives for one key over successive samples of its pin,
  starting from the stored flag \<open>lastPressed\<close>.
\<close>

fun key_trace :: "key \<Rightarrow> bool \<Rightarrow> bool list \<Rightarrow> event list" where
  "key_trace k lastPressed [] = []"
| "key_trace k lastPressed (pin # pins) =
     callbacks (key_rule k pin lastPressed) @ key_trace k (\<not> pin) pins"

text \<open>
  The calls that concern one key among the entries of a trace: the write and the clear of
  its pixel and the entries into its PRESSED and RELEASED callbacks.
\<close>

definition key_view :: "key \<Rightarrow> effect list \<Rightarrow> effect list" where
  "key_view k =
     filter (\<lambda>e. e = NEO_writeHue (key_pixel k) (key_hue k) NEO_BRIGHT_KEYS
               \<or> e = NEO_clearPixel (key_pixel k)
               \<or> e = Callback (PRESSED k) \<or> e = Callback (RELEASED k))"

text \<open>The bytes passed to \<open>NEO_sendByte\<close>, in order.\<close>

fun sent_bytes :: "effect list \<Rightarrow> u8 list" where
  "sent_bytes [] = []"
| "sent_bytes (NEO_sendByte b # es) = b # sent_bytes es"
| "sent_bytes (x # es) = sent_bytes es"

text \<open>
  Inputs of an iteration in which nothing is touched: every pin reads high (the keys and
  the switch are active-low, phase A is at rest).
\<close>

definition idle_inputs :: inputs where
  "idle_inputs =
     \<lparr>PIN_KEY1 = True, PIN_KEY2 = True, PIN_KEY3 = True, PIN_KEY4 = True, PIN_KEY5 = True,
      PIN_KEY6 = True, PIN_ENC_A = True, PIN_ENC_B = True, PIN_ENC_SW = True,
      PIN_ENC_A_wait = (\<lambda>n. True)\<rparr>"

section \<open>Properties\<close>

subsection \<open>Basic facts\<close>

lemma exec_Nil: "exec [] s = s"
  by (simp add: exec_def)

lemma exec_Cons: "exec (f # fs) s = exec fs (f s)"
  by (simp add: exec_def)

lemma trace_emit: "trace (emit e s) = trace s @ [e]"
  by (simp add: emit_def)

lemmas callback_defs =
  KEY1_PRESSED_def KEY1_RELEASED_def KEY1_HOLD_def
  KEY2_PRESSED_def KEY2_RELEASED_def KEY2_HOLD_def
  KEY3_PRESSED_def KEY3_RELEASED_def KEY3_HOLD_def
  KEY4_PRESSED_def KEY4_RELEASED_def KEY4_HOLD_def
  KEY5_PRESSED_def KEY5_RELEASED_def KEY5_HOLD_def
  KEY6_PRESSED_def KEY6_RELEASED_def KEY6_HOLD_def
  ENC_CW_ACTION_def ENC_CW_RELEASED_def ENC_CCW_ACTION_def ENC_CCW_RELEASED_def
  ENC_SW_PRESSED_def ENC_SW_RELEASED_def

lemmas handle_key_defs =
  handle_key1_def handle_key2_def handle_key3_def handle_key4_def handle_key5_def
  handle_key6_def

lemma callbacks_append: "callbacks (xs @ ys) = callbacks xs @ callbacks ys"
  by (induction xs rule: callbacks.induct) simp_all

lemma callbacks_set: "e \<in> set (callbacks es) \<longleftrightarrow> Callback e \<in> set es"
  by (induction es rule: callbacks.induct) auto

lemma handle_key_trace:
  "trace (handle_key k pin s) = trace s @ key_rule k pin (keylast k s)"
  by (cases k)
    (simp_all add: handle_key_defs key_rule_def callback_defs exec_Nil exec_Cons emit_def Let_def)

lemma handle_key_keylast:
  "keylast k' (handle_key k pin s) = (if k' = k then \<not> pin else keylast k' s)"
  by (cases k; cases k')
    (simp_all add: handle_key_defs callback_defs exec_Nil exec_Cons emit_def Let_def)

lemma handle_key_other:
  "isSwitchPressed (handle_key k pin s) = isSwitchPressed s"
  "neoencoder (handle_key k pin s) = neoencoder s"
  by (cases k;
    simp add: handle_key_defs callback_defs exec_Nil exec_Cons emit_def Let_def)+

lemma handle_key_idle: "pin \<Longrightarrow> \<not> keylast k s \<Longrightarrow> handle_key k pin s = s"
  by (cases k) (simp_all add: handle_key_defs)

subsection \<open>The ring functions\<close>

lemma wrap_add:
  assumes "unat (x::u8) < 192" and "unat (c::u8) < 64"
  shows "unat (if x + c \<ge> 192 then x + c - 192 else x + c) = (unat x + unat c) mod 192"
proof -
  have a: "unat (x + c) = unat x + unat c"
    using assms by (simp add: unat_word_ariths)
  show ?thesis
  proof (cases "x + c \<ge> 192")
    case True
    then have "unat (x + c - 192) = unat (x + c) - unat (192::u8)"
      by (rule unat_sub)
    moreover from True have "192 \<le> unat x + unat c"
      using a by (simp add: word_le_nat_alt)
    ultimately show ?thesis using True a assms by (simp add: mod_if)
  next
    case False
    then have "unat x + unat c < 192"
      using a by (simp add: word_le_nat_alt)
    with False a show ?thesis by simp
  qed
qed

lemma wrap_sub:
  assumes "unat (x::u8) < 192"
  shows "unat (if x - 8 \<ge> 192 then x - 8 - 64 else x - 8) = (unat x + 184) mod 192"
proof (cases "8 \<le> x")
  case True
  then have a: "unat (x - 8) = unat x - 8"
    by (simp add: unat_sub)
  from True have b: "8 \<le> unat x" by (simp add: word_le_nat_alt)
  have "\<not> x - 8 \<ge> 192" using a b assms by (simp add: word_le_nat_alt)
  moreover have "(unat x + 184) mod 192 = unat x - 8"
    using b assms by (simp add: mod_if)
  ultimately show ?thesis using a by simp
next
  case False
  then have b: "unat x < 8" by (simp add: word_le_nat_alt)
  have a: "unat (x - 8) = unat x + 248"
    using b by (simp add: unat_sub_if')
  then have c: "x - 8 \<ge> 192" by (simp add: word_le_nat_alt)
  have "64 \<le> x - 8" using a by (simp add: word_le_nat_alt)
  then have "unat (x - 8 - 64) = unat (x - 8) - unat (64::u8)" by (rule unat_sub)
  then show ?thesis using a b c by (simp add: mod_if)
qed

lemma ring_loop_step:
  "i < 18 \<Longrightarrow> ring_loop i j s =
     ring_loop (i + 1) (if j + 16 \<ge> 192 then j + 16 - 192 else j + 16)
       (emit (NEO_writeHue i j NEO_BRIGHT_ENC) s)"
  by (subst ring_loop.simps) (simp add: Let_def)

lemma ring_loop_stop: "\<not> i < 18 \<Longrightarrow> ring_loop i j s = s"
  by (subst ring_loop.simps) simp

lemma ring_loop_only_trace: "(ring_loop i j s)\<lparr>trace := t\<rparr> = s\<lparr>trace := t\<rparr>"
proof (induction i j s rule: ring_loop.induct)
  case (1 i j s)
  show ?case
  proof (cases "i < 18")
    case True
    show ?thesis
      unfolding ring_loop_step [OF True]
      using "1.IH" [OF True refl refl refl] by (simp add: emit_def)
  next
    case False
    then show ?thesis by (simp add: ring_loop_stop)
  qed
qed

lemma ring_loop_callbacks: "callbacks (trace (ring_loop i j s)) = callbacks (trace s)"
proof (induction i j s rule: ring_loop.induct)
  case (1 i j s)
  show ?case
  proof (cases "i < 18")
    case True
    show ?thesis
      unfolding ring_loop_step [OF True]
      using "1.IH" [OF True refl refl refl] by (simp add: trace_emit callbacks_append)
  next
    case False
    then show ?thesis by (simp add: ring_loop_stop)
  qed
qed

lemma ring_loop_filter:
  assumes "\<And>p h. \<not> P (NEO_writeHue p h NEO_BRIGHT_ENC)"
  shows "filter P (trace (ring_loop i j s)) = filter P (trace s)"
proof (induction i j s rule: ring_loop.induct)
  case (1 i j s)
  show ?case
  proof (cases "i < 18")
    case True
    show ?thesis
      unfolding ring_loop_step [OF True]
      using "1.IH" [OF True refl refl refl] assms by (simp add: trace_emit)
  next
    case False
    then show ?thesis by (simp add: ring_loop_stop)
  qed
qed

lemma ring_loop_trace:
  "unat i \<le> 18 \<Longrightarrow> unat j < 192 \<Longrightarrow>
   trace (ring_loop i j s) = trace s @
     map (\<lambda>k. NEO_writeHue (i + of_nat k) (of_nat ((unat j + 16 * k) mod 192)) NEO_BRIGHT_ENC)
       [0..<18 - unat i]"
proof (induction i j s rule: ring_loop.induct)
  case (1 i j s)
  show ?case
  proof (cases "i < 18")
    case True
    let ?s1 = "emit (NEO_writeHue i j NEO_BRIGHT_ENC) s"
    let ?j2 = "if j + 16 \<ge> 192 then j + 16 - 192 else j + 16"
    from True have i: "unat i < 18" by (simp add: word_less_nat_alt)
    then have i1: "unat (i + 1) = Suc (unat i)" by (simp add: unat_word_ariths)
    have j2: "unat ?j2 = (unat j + 16) mod 192"
      using wrap_add [of j 16] "1.prems"(2) by simp
    have n: "18 - unat i = Suc (17 - unat i)" using i by simp
    have IH: "trace (ring_loop (i + 1) ?j2 ?s1) = trace ?s1 @
        map (\<lambda>k. NEO_writeHue (i + 1 + of_nat k) (of_nat ((unat ?j2 + 16 * k) mod 192))
          NEO_BRIGHT_ENC) [0..<18 - unat (i + 1)]"
      using "1.IH" [OF True refl refl refl] i i1 j2 by simp
    have hue: "((unat j + 16) mod 192 + 16 * k) mod 192 = (unat j + 16 * Suc k) mod 192" for k
    proof -
      have "((unat j + 16) mod 192 + 16 * k) mod 192 = (unat j + 16 + 16 * k) mod 192"
        by (rule mod_add_left_eq)
      then show ?thesis by (simp only: mult_Suc_right add.assoc)
    qed
    have j0: "of_nat (unat j mod 192) = j" using "1.prems"(2) by simp
    show ?thesis
      unfolding ring_loop_step [OF True] IH j2 n upt_conv_Cons [OF zero_less_Suc]
        map_Suc_upt [symmetric]
      by (simp add: trace_emit i1 hue j0 add.assoc) 
  next
    case False
    then have "unat i = 18" using "1.prems"(1) by (simp add: word_less_nat_alt)
    with False show ?thesis by (simp add: ring_loop_stop)
  qed
qed

lemma NEO_encoder_update_only_trace:
  "(NEO_encoder_update s)\<lparr>trace := t\<rparr> = s\<lparr>trace := t\<rparr>"
  by (simp add: NEO_encoder_update_def emit_def ring_loop_only_trace)

lemma NEO_encoder_update_fields:
  "key1last (NEO_encoder_update s) = key1last s"
  "key2last (NEO_encoder_update s) = key2last s"
  "key3last (NEO_encoder_update s) = key3last s"
  "key4last (NEO_encoder_update s) = key4last s"
  "key5last (NEO_encoder_update s) = key5last s"
  "key6last (NEO_encoder_update s) = key6last s"
  "isSwitchPressed (NEO_encoder_update s) = isSwitchPressed s"
  "neoencoder (NEO_encoder_update s) = neoencoder s"
proof -
  have e: "(NEO_encoder_update s)\<lparr>trace := []\<rparr> = s\<lparr>trace := []\<rparr>"
    by (rule NEO_encoder_update_only_trace)
  show "key1last (NEO_encoder_update s) = key1last s"
    using arg_cong [OF e, of key1last] by simp
  show "key2last (NEO_encoder_update s) = key2last s"
    using arg_cong [OF e, of key2last] by simp
  show "key3last (NEO_encoder_update s) = key3last s"
    using arg_cong [OF e, of key3last] by simp
  show "key4last (NEO_encoder_update s) = key4last s"
    using arg_cong [OF e, of key4last] by simp
  show "key5last (NEO_encoder_update s) = key5last s"
    using arg_cong [OF e, of key5last] by simp
  show "key6last (NEO_encoder_update s) = key6last s"
    using arg_cong [OF e, of key6last] by simp
  show "isSwitchPressed (NEO_encoder_update s) = isSwitchPressed s"
    using arg_cong [OF e, of isSwitchPressed] by simp
  show "neoencoder (NEO_encoder_update s) = neoencoder s"
    using arg_cong [OF e, of neoencoder] by simp
qed

lemma NEO_encoder_update_callbacks:
  "callbacks (trace (NEO_encoder_update s)) = callbacks (trace s)"
  by (simp add: NEO_encoder_update_def trace_emit callbacks_append ring_loop_callbacks)

lemma NEO_encoder_update_trace:
  assumes "unat (neoencoder s) < 192"
  shows "trace (NEO_encoder_update s) = trace s @ ring_frame (unat (neoencoder s))"
proof -
  have "trace (ring_loop 6 (neoencoder s) s) = trace s @
     map (\<lambda>k. NEO_writeHue (6 + of_nat k) (of_nat ((unat (neoencoder s) + 16 * k) mod 192))
       NEO_BRIGHT_ENC) [0..<18 - unat (6::u8)]"
    using assms by (intro ring_loop_trace) simp_all
  then show ?thesis
    by (simp add: NEO_encoder_update_def trace_emit ring_frame_def)
qed

subsection \<open>Rotation\<close>

lemma NEO_encoder_cw_phase:
  "neoencoder (NEO_encoder_cw s) =
     (if neoencoder s + 8 \<ge> 192 then neoencoder s + 8 - 192 else neoencoder s + 8)"
  by (simp add: NEO_encoder_cw_def Let_def NEO_encoder_update_fields)

lemma NEO_encoder_ccw_phase:
  "neoencoder (NEO_encoder_ccw s) =
     (if neoencoder s - 8 \<ge> 192 then neoencoder s - 8 - 64 else neoencoder s - 8)"
  by (simp add: NEO_encoder_ccw_def Let_def NEO_encoder_update_fields)

lemma int_minus8_mod: "(x - 8) mod 192 = (x + 184) mod (192::int)"
proof -
  have "(x - 8 + 192) mod 192 = (x - 8) mod 192" by (rule mod_add_self2)
  moreover have "x - 8 + 192 = x + 184" by simp
  ultimately show ?thesis by (simp only:)
qed

lemma cw_unat:
  "unat (neoencoder s) < 192 \<Longrightarrow>
   unat (neoencoder (NEO_encoder_cw s)) = (unat (neoencoder s) + 8) mod 192"
  using wrap_add [of "neoencoder s" 8] by (simp add: NEO_encoder_cw_phase)

lemma ccw_unat:
  "unat (neoencoder s) < 192 \<Longrightarrow>
   unat (neoencoder (NEO_encoder_ccw s)) = (unat (neoencoder s) + 184) mod 192"
  using wrap_sub [of "neoencoder s"] by (simp add: NEO_encoder_ccw_phase)

lemma cw_funpow:
  "unat (neoencoder s) < 192 \<Longrightarrow>
   unat (neoencoder ((NEO_encoder_cw ^^ k) s)) = (unat (neoencoder s) + 8 * k) mod 192"
proof (induction k)
  case 0
  then show ?case by simp
next
  case (Suc k)
  let ?t = "(NEO_encoder_cw ^^ k) s"
  have t: "unat (neoencoder ?t) = (unat (neoencoder s) + 8 * k) mod 192"
    using Suc by simp
  then have "unat (neoencoder ?t) < 192" by simp
  then have "unat (neoencoder (NEO_encoder_cw ?t)) = (unat (neoencoder ?t) + 8) mod 192"
    by (rule cw_unat)
  also have "\<dots> = (unat (neoencoder s) + 8 * k + 8) mod 192"
    unfolding t by (rule mod_add_left_eq)
  finally show ?case by (simp add: algebra_simps)
qed

lemma ccw_funpow:
  "unat (neoencoder s) < 192 \<Longrightarrow>
   unat (neoencoder ((NEO_encoder_ccw ^^ k) s)) = (unat (neoencoder s) + 184 * k) mod 192"
proof (induction k)
  case 0
  then show ?case by simp
next
  case (Suc k)
  let ?t = "(NEO_encoder_ccw ^^ k) s"
  have t: "unat (neoencoder ?t) = (unat (neoencoder s) + 184 * k) mod 192"
    using Suc by simp
  then have "unat (neoencoder ?t) < 192" by simp
  then have "unat (neoencoder (NEO_encoder_ccw ?t)) = (unat (neoencoder ?t) + 184) mod 192"
    by (rule ccw_unat)
  also have "\<dots> = (unat (neoencoder s) + 184 * k + 184) mod 192"
    unfolding t by (rule mod_add_left_eq)
  finally show ?case by (simp add: algebra_simps)
qed

subsection \<open>New effects\<close>

lemma new_effectsI: "trace s' = trace s @ es \<Longrightarrow> new_effects s s' = es"
  by (simp add: new_effects_def)

lemma new_effects_self: "new_effects s s = []"
  by (simp add: new_effects_def)

subsection \<open>The encoder block\<close>

lemma NEO_encoder_cw_trace:
  assumes "unat (neoencoder s) < 192"
  shows "trace (NEO_encoder_cw s) = trace s @ ring_frame ((unat (neoencoder s) + 8) mod 192)"
proof -
  let ?s2 = "s\<lparr>neoencoder :=
      (if neoencoder s + 8 \<ge> 192 then neoencoder s + 8 - 192 else neoencoder s + 8)\<rparr>"
  have eq: "NEO_encoder_cw s = NEO_encoder_update ?s2"
    by (simp add: NEO_encoder_cw_def Let_def)
  have p: "unat (neoencoder ?s2) = (unat (neoencoder s) + 8) mod 192"
    using wrap_add [of "neoencoder s" 8] assms by simp
  then have "unat (neoencoder ?s2) < 192" by simp
  then have "trace (NEO_encoder_update ?s2) = trace ?s2 @ ring_frame (unat (neoencoder ?s2))"
    by (rule NEO_encoder_update_trace)
  then show ?thesis unfolding eq p by simp
qed

lemma NEO_encoder_ccw_trace:
  assumes "unat (neoencoder s) < 192"
  shows "trace (NEO_encoder_ccw s) = trace s @ ring_frame ((unat (neoencoder s) + 184) mod 192)"
proof -
  let ?s2 = "s\<lparr>neoencoder :=
      (if neoencoder s - 8 \<ge> 192 then neoencoder s - 8 - 64 else neoencoder s - 8)\<rparr>"
  have eq: "NEO_encoder_ccw s = NEO_encoder_update ?s2"
    by (simp add: NEO_encoder_ccw_def Let_def)
  have p: "unat (neoencoder ?s2) = (unat (neoencoder s) + 184) mod 192"
    using wrap_sub [of "neoencoder s"] assms by simp
  then have "unat (neoencoder ?s2) < 192" by simp
  then have "trace (NEO_encoder_update ?s2) = trace ?s2 @ ring_frame (unat (neoencoder ?s2))"
    by (rule NEO_encoder_update_trace)
  then show ?thesis unfolding eq p by simp
qed

lemma NEO_encoder_cw_callbacks: "callbacks (trace (NEO_encoder_cw s)) = callbacks (trace s)"
  by (simp add: NEO_encoder_cw_def Let_def NEO_encoder_update_callbacks)

lemma NEO_encoder_ccw_callbacks: "callbacks (trace (NEO_encoder_ccw s)) = callbacks (trace s)"
  by (simp add: NEO_encoder_ccw_def Let_def NEO_encoder_update_callbacks)

lemma NEO_encoder_cw_fields:
  "key1last (NEO_encoder_cw s) = key1last s" "key2last (NEO_encoder_cw s) = key2last s"
  "key3last (NEO_encoder_cw s) = key3last s" "key4last (NEO_encoder_cw s) = key4last s"
  "key5last (NEO_encoder_cw s) = key5last s" "key6last (NEO_encoder_cw s) = key6last s"
  "isSwitchPressed (NEO_encoder_cw s) = isSwitchPressed s"
  by (simp_all add: NEO_encoder_cw_def Let_def NEO_encoder_update_fields)

lemma NEO_encoder_ccw_fields:
  "key1last (NEO_encoder_ccw s) = key1last s" "key2last (NEO_encoder_ccw s) = key2last s"
  "key3last (NEO_encoder_ccw s) = key3last s" "key4last (NEO_encoder_ccw s) = key4last s"
  "key5last (NEO_encoder_ccw s) = key5last s" "key6last (NEO_encoder_ccw s) = key6last s"
  "isSwitchPressed (NEO_encoder_ccw s) = isSwitchPressed s"
  by (simp_all add: NEO_encoder_ccw_def Let_def NEO_encoder_update_fields)

lemmas enc_callback_defs =
  ENC_CW_ACTION_def ENC_CW_RELEASED_def ENC_CCW_ACTION_def ENC_CCW_RELEASED_def
  ENC_SW_PRESSED_def ENC_SW_RELEASED_def

lemma handle_rotation_fields:
  "key1last (handle_rotation b s) = key1last s" "key2last (handle_rotation b s) = key2last s"
  "key3last (handle_rotation b s) = key3last s" "key4last (handle_rotation b s) = key4last s"
  "key5last (handle_rotation b s) = key5last s" "key6last (handle_rotation b s) = key6last s"
  "isSwitchPressed (handle_rotation b s) = isSwitchPressed s"
  by (simp_all add: handle_rotation_def enc_callback_defs exec_Nil exec_Cons emit_def
      NEO_encoder_cw_fields NEO_encoder_ccw_fields)

lemma handle_rotation_phase:
  "neoencoder (handle_rotation b s) =
     (if b then neoencoder (NEO_encoder_cw s) else neoencoder (NEO_encoder_ccw s))"
  by (simp add: handle_rotation_def enc_callback_defs exec_Nil exec_Cons emit_def
      NEO_encoder_cw_phase NEO_encoder_ccw_phase)

lemma handle_rotation_trace:
  assumes "unat (neoencoder s) < 192"
  shows "trace (handle_rotation b s) = trace s @
     (if b
      then [Callback CW_ACTION, CON_press CON_VOL_UP]
           @ ring_frame ((unat (neoencoder s) + 8) mod 192)
           @ [DLY_ms 5, Callback CW_RELEASED, CON_release]
      else [Callback CCW_ACTION, CON_press CON_VOL_DOWN]
           @ ring_frame ((unat (neoencoder s) + 184) mod 192)
           @ [DLY_ms 5, Callback CCW_RELEASED, CON_release])"
proof -
  have cw: "trace (NEO_encoder_cw (emit e2 (emit e1 s))) =
      trace s @ [e1, e2] @ ring_frame ((unat (neoencoder s) + 8) mod 192)" for e1 e2
    using NEO_encoder_cw_trace [of "emit e2 (emit e1 s)"] assms by (simp add: emit_def)
  have ccw: "trace (NEO_encoder_ccw (emit e2 (emit e1 s))) =
      trace s @ [e1, e2] @ ring_frame ((unat (neoencoder s) + 184) mod 192)" for e1 e2
    using NEO_encoder_ccw_trace [of "emit e2 (emit e1 s)"] assms by (simp add: emit_def)
  show ?thesis
    by (simp add: handle_rotation_def enc_callback_defs exec_Nil exec_Cons trace_emit cw ccw)
qed

lemma handle_rotation_callbacks:
  "callbacks (trace (handle_rotation b s)) = callbacks (trace s) @
     (if b then [CW_ACTION, CW_RELEASED] else [CCW_ACTION, CCW_RELEASED])"
  by (simp add: handle_rotation_def enc_callback_defs exec_Nil exec_Cons trace_emit
      callbacks_append NEO_encoder_cw_callbacks NEO_encoder_ccw_callbacks)

lemma handle_switch_trace:
  "trace (handle_switch pin s) = trace s @
     (if \<not> isSwitchPressed s \<and> \<not> pin then [Callback SW_PRESSED, CON_press CON_VOL_MUTE]
      else if isSwitchPressed s \<and> pin then [Callback SW_RELEASED, CON_release]
      else [])"
  by (simp add: handle_switch_def enc_callback_defs exec_Nil exec_Cons emit_def)

lemma handle_switch_fields:
  "key1last (handle_switch pin s) = key1last s" "key2last (handle_switch pin s) = key2last s"
  "key3last (handle_switch pin s) = key3last s" "key4last (handle_switch pin s) = key4last s"
  "key5last (handle_switch pin s) = key5last s" "key6last (handle_switch pin s) = key6last s"
  "neoencoder (handle_switch pin s) = neoencoder s"
  "isSwitchPressed (handle_switch pin s) = (\<not> pin)"
  by (auto simp add: handle_switch_def enc_callback_defs exec_Nil exec_Cons emit_def)

subsection \<open>The busy-wait\<close>

lemma wait_detent_returns: "a (k + d) \<Longrightarrow> \<exists>m. wait_detent a k = Some m"
proof (induction d arbitrary: k)
  case 0
  then show ?case by (subst wait_detent.simps) simp
next
  case (Suc d)
  then have "a (Suc k + d)" by simp
  then obtain m where "wait_detent a (Suc k) = Some m" using Suc.IH by blast
  then show ?case by (subst wait_detent.simps) simp
qed

lemma wait_detent_Some: "wait_detent a k = Some m \<Longrightarrow> a m"
  by (rule wait_detent.raw_induct [where P = "\<lambda>a k m. a m"]) (auto split: if_splits)

lemma wait_detent_iff: "(\<exists>m. wait_detent a 0 = Some m) \<longleftrightarrow> (\<exists>n. a n)"
  using wait_detent_returns [of a 0] wait_detent_Some [of a 0] by auto

lemma handle_encoder_final:
  "final_state (handle_encoder inp s) =
     (if \<not> PIN_ENC_A inp then handle_rotation (PIN_ENC_B inp) s
      else handle_switch (PIN_ENC_SW inp) s)"
  by (simp add: handle_encoder_def Let_def split: option.split)

lemma handle_encoder_returns:
  "(\<exists>s'. handle_encoder inp s = Inr s') \<longleftrightarrow> PIN_ENC_A inp \<or> (\<exists>n. PIN_ENC_A_wait inp n)"
  using wait_detent_iff [of "PIN_ENC_A_wait inp"]
  by (auto simp add: handle_encoder_def Let_def split: option.splits)

subsection \<open>The key blocks together\<close>

lemma handle_keys_eq:
  "handle_keys inp s =
     handle_key KEY6 (PIN_KEY KEY6 inp) (handle_key KEY5 (PIN_KEY KEY5 inp)
       (handle_key KEY4 (PIN_KEY KEY4 inp) (handle_key KEY3 (PIN_KEY KEY3 inp)
         (handle_key KEY2 (PIN_KEY KEY2 inp) (handle_key KEY1 (PIN_KEY KEY1 inp) s)))))"
  by (simp add: handle_keys_def exec_Nil exec_Cons)

lemma handle_keys_other:
  "isSwitchPressed (handle_keys inp s) = isSwitchPressed s"
  "neoencoder (handle_keys inp s) = neoencoder s"
  unfolding handle_keys_eq by (simp_all only: handle_key_other)

lemma handle_keys_keylast: "keylast k (handle_keys inp s) = (\<not> PIN_KEY k inp)"
  unfolding handle_keys_eq
  by (cases k) (simp_all add: handle_key_keylast del: keylast.simps handle_key.simps PIN_KEY.simps)

lemma handle_keys_trace:
  "trace (handle_keys inp s) = trace s @
     key_rule KEY1 (PIN_KEY KEY1 inp) (keylast KEY1 s) @
     key_rule KEY2 (PIN_KEY KEY2 inp) (keylast KEY2 s) @
     key_rule KEY3 (PIN_KEY KEY3 inp) (keylast KEY3 s) @
     key_rule KEY4 (PIN_KEY KEY4 inp) (keylast KEY4 s) @
     key_rule KEY5 (PIN_KEY KEY5 inp) (keylast KEY5 s) @
     key_rule KEY6 (PIN_KEY KEY6 inp) (keylast KEY6 s)"
  unfolding handle_keys_eq
  by (simp only: handle_key_trace handle_key_keylast key.distinct if_False append_assoc)

subsection \<open>One iteration and runs\<close>

lemma loop_body_idle:
  "PIN_ENC_A inp \<Longrightarrow>
   loop_body inp s =
     Inr (emit WDT_reset (emit (DLY_ms 1) (handle_switch (PIN_ENC_SW inp) (handle_keys inp s))))"
  by (simp add: loop_body_def handle_encoder_def Let_def exec_Nil exec_Cons)

lemma loop_body_turned:
  "\<not> PIN_ENC_A inp \<Longrightarrow>
   loop_body inp s =
     (case wait_detent (PIN_ENC_A_wait inp) 0 of
        None \<Rightarrow> Inl (Stuck (handle_rotation (PIN_ENC_B inp) (handle_keys inp s)))
      | Some n \<Rightarrow> Inr (emit WDT_reset (emit (DLY_ms 1)
                   (handle_rotation (PIN_ENC_B inp) (handle_keys inp s)))))"
  by (simp add: loop_body_def handle_encoder_def Let_def exec_Nil exec_Cons split: option.split)

lemma loop_body_returns:
  "(\<exists>s'. loop_body inp s = Inr s') \<longleftrightarrow> PIN_ENC_A inp \<or> (\<exists>n. PIN_ENC_A_wait inp n)"
proof (cases "PIN_ENC_A inp")
  case True
  then show ?thesis by (simp add: loop_body_idle)
next
  case False
  then show ?thesis
    using wait_detent_iff [of "PIN_ENC_A_wait inp"]
    by (auto simp add: loop_body_turned split: option.splits)
qed

lemma loop_body_Inr:
  assumes "PIN_ENC_A inp \<or> (\<exists>m. PIN_ENC_A_wait inp m)"
  shows "loop_body inp s = Inr (final_state (loop_body inp s))"
proof -
  obtain s' where "loop_body inp s = Inr s'"
    using assms loop_body_returns [of inp s] by blast
  then show ?thesis by simp
qed

lemma run_step: "loop_body inp s = Inr s1 \<Longrightarrow> run (inp # ins) s = run ins s1"
  by simp

lemma loop_body_phase:
  "neoencoder (final_state (loop_body inp s)) =
     (if PIN_ENC_A inp then neoencoder s
      else if PIN_ENC_B inp then neoencoder (NEO_encoder_cw (handle_keys inp s))
      else neoencoder (NEO_encoder_ccw (handle_keys inp s)))"
  by (cases "PIN_ENC_A inp")
    (simp_all add: loop_body_idle loop_body_turned emit_def handle_switch_fields
      handle_keys_other handle_rotation_phase split: option.split)

lemma loop_body_inv:
  assumes "unat (neoencoder s) < 192"
  shows "unat (neoencoder (final_state (loop_body inp s))) < 192"
proof -
  have k: "unat (neoencoder (handle_keys inp s)) < 192"
    using assms by (simp add: handle_keys_other)
  show ?thesis
    using assms cw_unat [OF k] ccw_unat [OF k] by (simp add: loop_body_phase)
qed

lemma run_inv:
  "unat (neoencoder s) < 192 \<Longrightarrow> unat (neoencoder (final_state (run ins s))) < 192"
proof (induction ins arbitrary: s)
  case Nil
  then show ?case by simp
next
  case (Cons inp ins)
  have step: "unat (neoencoder (final_state (loop_body inp s))) < 192"
    using Cons.prems by (rule loop_body_inv)
  show ?case
  proof (cases "loop_body inp s")
    case (Inl h)
    with step show ?thesis by simp
  next
    case (Inr s1)
    with step have "unat (neoencoder s1) < 192" by simp
    then have "unat (neoencoder (final_state (run ins s1))) < 192" by (rule Cons.IH)
    with Inr show ?thesis by simp
  qed
qed

lemma run_returns:
  "(\<And>inp. inp \<in> set ins \<Longrightarrow> PIN_ENC_A inp \<or> (\<exists>n. PIN_ENC_A_wait inp n)) \<Longrightarrow>
   \<exists>s'. run ins s = Inr s'"
proof (induction ins arbitrary: s)
  case Nil
  then show ?case by simp
next
  case (Cons inp ins)
  have "PIN_ENC_A inp \<or> (\<exists>n. PIN_ENC_A_wait inp n)" using Cons.prems by simp
  then obtain s1 where s1: "loop_body inp s = Inr s1"
    using loop_body_returns [of inp s] by blast
  have "\<exists>s'. run ins s1 = Inr s'" using Cons.prems by (intro Cons.IH) simp
  with s1 show ?case by simp
qed

subsection \<open>Setup\<close>

lemma light_loop_step: "i \<noteq> 0 \<Longrightarrow> light_loop i s = light_loop (i - 1) (emit (NEO_sendByte 127) s)"
  by (subst light_loop.simps) simp

lemma light_loop_stop: "light_loop 0 s = s"
  by (subst light_loop.simps) simp

lemma light_loop_only_trace: "(light_loop i s)\<lparr>trace := t\<rparr> = s\<lparr>trace := t\<rparr>"
proof (induction i s rule: light_loop.induct)
  case (1 i s)
  show ?case
  proof (cases "i = 0")
    case True
    then show ?thesis by (simp add: light_loop_stop)
  next
    case False
    show ?thesis
      unfolding light_loop_step [OF False]
      using "1.IH" [OF False] by (simp add: emit_def)
  qed
qed

lemma light_loop_trace:
  "trace (light_loop i s) = trace s @ replicate (unat i) (NEO_sendByte 127)"
proof (induction i s rule: light_loop.induct)
  case (1 i s)
  show ?case
  proof (cases "i = 0")
    case True
    then show ?thesis by (simp add: light_loop_stop)
  next
    case False
    then have "unat i \<noteq> 0" by (simp add: unat_eq_0)
    moreover from False have "unat (i - 1) = unat i - 1" by (rule unat_minus_one)
    ultimately have n: "unat i = Suc (unat (i - 1))" by simp
    have "trace (light_loop i s) = trace s @ NEO_sendByte 127 # replicate (unat (i - 1)) (NEO_sendByte 127)"
      unfolding light_loop_step [OF False]
      using "1.IH" [OF False] by (simp add: trace_emit)
    then show ?thesis by (subst n) simp
  qed
qed

lemma main_setup_boot:
  "main_setup neo_count False =
     Inl (Bootloader (emit Enter_bootloader (light_loop (of_nat (3 * neo_count))
       (emit NEO_clearAll (emit (DLY_ms 10) (emit CLK_config (emit NEO_init initial_state)))))))"
  by (simp add: main_setup_def BOOT_now_def Let_def exec_Nil exec_Cons)

lemma main_setup_run:
  "main_setup neo_count True =
     Inr (NEO_encoder_update (emit WDT_start (emit (DLY_ms 500) (emit HID_init
       (emit NEO_clearAll (emit (DLY_ms 10) (emit CLK_config (emit NEO_init initial_state))))))))"
  by (simp add: main_setup_def Let_def exec_Nil exec_Cons)

lemma sent_bytes_append: "sent_bytes (xs @ ys) = sent_bytes xs @ sent_bytes ys"
  by (induction xs rule: sent_bytes.induct) simp_all

lemma sent_bytes_replicate: "sent_bytes (replicate n (NEO_sendByte b)) = replicate n b"
  by (induction n) simp_all

lemma main_boot:
  assumes "3 * neo_count < 256"
  shows "main neo_count False ins =
     Inl (Bootloader (initial_state\<lparr>trace :=
       [NEO_init, CLK_config, DLY_ms 10, NEO_clearAll]
       @ replicate (3 * neo_count) (NEO_sendByte 127) @ [Enter_bootloader]\<rparr>))"
proof -
  let ?s1 = "emit NEO_clearAll (emit (DLY_ms 10) (emit CLK_config (emit NEO_init initial_state)))"
  let ?i = "of_nat (3 * neo_count) :: u8"
  have n: "unat ?i = 3 * neo_count"
    using assms unat_of_nat [of "3 * neo_count", where 'a = 8] by simp
  have "light_loop ?i ?s1 = ?s1\<lparr>trace := trace (light_loop ?i ?s1)\<rparr>"
    using light_loop_only_trace [of "trace (light_loop ?i ?s1)" ?i ?s1] by simp
  also have "\<dots> = ?s1\<lparr>trace := trace ?s1 @ replicate (3 * neo_count) (NEO_sendByte 127)\<rparr>"
    by (simp only: light_loop_trace n)
  finally have "emit Enter_bootloader (light_loop ?i ?s1) =
      initial_state\<lparr>trace := [NEO_init, CLK_config, DLY_ms 10, NEO_clearAll]
       @ replicate (3 * neo_count) (NEO_sendByte 127) @ [Enter_bootloader]\<rparr>"
    by (simp add: emit_def initial_state_def)
  then show ?thesis
    by (simp only: main_def main_setup_boot sum.case)
qed

lemma main_setup_phase: "neoencoder (final_state (main_setup neo_count pin_sw)) = 0"
proof (cases pin_sw)
  case True
  then show ?thesis
    by (simp add: main_setup_run NEO_encoder_update_fields emit_def initial_state_def)
next
  case False
  have "neoencoder (light_loop i s) = neoencoder s" for i s
    using arg_cong [OF light_loop_only_trace [of "[]" i s], of neoencoder] by simp
  with False show ?thesis
    by (simp add: main_setup_boot emit_def initial_state_def)
qed

lemma main_inv: "unat (neoencoder (final_state (main neo_count pin_sw ins))) < 192"
proof (cases "main_setup neo_count pin_sw")
  case (Inl h)
  then have "final_state (main neo_count pin_sw ins) = final_state (main_setup neo_count pin_sw)"
    by (simp add: main_def)
  then show ?thesis by (simp add: main_setup_phase)
next
  case (Inr s)
  then have "neoencoder s = 0" using main_setup_phase [of neo_count pin_sw] by simp
  then have "unat (neoencoder (final_state (run ins s))) < 192" by (intro run_inv) simp
  with Inr show ?thesis by (simp add: main_def)
qed

subsection \<open>Traces only grow\<close>

lemma ring_loop_extends: "\<exists>es. trace (ring_loop i j s) = trace s @ es"
proof (induction i j s rule: ring_loop.induct)
  case (1 i j s)
  show ?case
  proof (cases "i < 18")
    case True
    show ?thesis
      unfolding ring_loop_step [OF True]
      using "1.IH" [OF True refl refl refl] by (auto simp add: trace_emit)
  next
    case False
    then show ?thesis by (simp add: ring_loop_stop)
  qed
qed

lemma NEO_encoder_update_extends: "\<exists>es. trace (NEO_encoder_update s) = trace s @ es"
  using ring_loop_extends [of 6 "neoencoder s" s]
  by (auto simp add: NEO_encoder_update_def trace_emit)

lemma handle_rotation_extends: "\<exists>es. trace (handle_rotation b s) = trace s @ es"
proof -
  have cw: "\<exists>es. trace (NEO_encoder_cw t) = trace t @ es" for t
  proof -
    let ?t2 = "t\<lparr>neoencoder :=
      (if neoencoder t + 8 \<ge> 192 then neoencoder t + 8 - 192 else neoencoder t + 8)\<rparr>"
    have "NEO_encoder_cw t = NEO_encoder_update ?t2" by (simp add: NEO_encoder_cw_def Let_def)
    then show ?thesis using NEO_encoder_update_extends [of ?t2] by simp
  qed
  have ccw: "\<exists>es. trace (NEO_encoder_ccw t) = trace t @ es" for t
  proof -
    let ?t2 = "t\<lparr>neoencoder :=
      (if neoencoder t - 8 \<ge> 192 then neoencoder t - 8 - 64 else neoencoder t - 8)\<rparr>"
    have "NEO_encoder_ccw t = NEO_encoder_update ?t2" by (simp add: NEO_encoder_ccw_def Let_def)
    then show ?thesis using NEO_encoder_update_extends [of ?t2] by simp
  qed
  show ?thesis
  proof (cases b)
    case True
    obtain es where "trace (NEO_encoder_cw (ENC_CW_ACTION s)) = trace (ENC_CW_ACTION s) @ es"
      using cw by blast
    with True show ?thesis
      by (simp add: handle_rotation_def enc_callback_defs exec_Nil exec_Cons trace_emit)
  next
    case False
    obtain es where "trace (NEO_encoder_ccw (ENC_CCW_ACTION s)) = trace (ENC_CCW_ACTION s) @ es"
      using ccw by blast
    with False show ?thesis
      by (simp add: handle_rotation_def enc_callback_defs exec_Nil exec_Cons trace_emit)
  qed
qed

lemma handle_encoder_extends: "\<exists>es. trace (final_state (handle_encoder inp s)) = trace s @ es"
  using handle_rotation_extends [of "PIN_ENC_B inp" s]
  by (simp add: handle_encoder_final handle_switch_trace)

lemma new_callbacks:
  assumes "\<exists>es. trace s' = trace s @ es"
    and "callbacks (trace s') = callbacks (trace s) @ cs"
  shows "callbacks (new_effects s s') = cs"
proof -
  from assms(1) obtain es where es: "trace s' = trace s @ es" by blast
  then have "new_effects s s' = es" by (rule new_effectsI)
  moreover have "callbacks (trace s) @ callbacks es = callbacks (trace s) @ cs"
    using assms(2) es by (simp add: callbacks_append)
  ultimately show ?thesis by simp
qed

lemma new_effects_trans:
  assumes "\<exists>es. trace s1 = trace s @ es" and "\<exists>es. trace s2 = trace s1 @ es"
  shows "new_effects s s2 = new_effects s s1 @ new_effects s1 s2"
proof -
  from assms obtain es1 es2 where "trace s1 = trace s @ es1" "trace s2 = trace s1 @ es2"
    by blast
  then show ?thesis by (simp add: new_effects_def)
qed

subsection \<open>Callbacks of one iteration\<close>

lemma callbacks_key_rule:
  "callbacks (key_rule k pin lastPressed) =
     (if (\<not> pin) \<noteq> lastPressed then (if \<not> pin then [PRESSED k] else [RELEASED k])
      else if lastPressed then [HOLD k] else [])"
  by (cases k) (simp_all add: key_rule_def)

text \<open>The callbacks of the encoder block, from its three pins and the stored switch flag.\<close>

lemma handle_encoder_callbacks:
  "callbacks (trace (final_state (handle_encoder inp s))) = callbacks (trace s) @
     (if \<not> PIN_ENC_A inp
      then (if PIN_ENC_B inp then [CW_ACTION, CW_RELEASED] else [CCW_ACTION, CCW_RELEASED])
      else if \<not> isSwitchPressed s \<and> \<not> PIN_ENC_SW inp then [SW_PRESSED]
      else if isSwitchPressed s \<and> PIN_ENC_SW inp then [SW_RELEASED]
      else [])"
  by (simp add: handle_encoder_final handle_rotation_callbacks handle_switch_trace
      callbacks_append)

lemma loop_body_final:
  "final_state (loop_body inp s) =
     (case handle_encoder inp (handle_keys inp s) of
        Inl h \<Rightarrow> final_state (handle_encoder inp (handle_keys inp s))
      | Inr s2 \<Rightarrow> emit WDT_reset (emit (DLY_ms 1) s2))"
  by (simp add: loop_body_def Let_def exec_Nil exec_Cons split: sum.split)

lemma loop_body_extends: "\<exists>es. trace (final_state (loop_body inp s)) = trace s @ es"
proof -
  obtain es where es: "trace (final_state (handle_encoder inp (handle_keys inp s))) =
      trace (handle_keys inp s) @ es"
    using handle_encoder_extends by blast
  show ?thesis
  proof (cases "handle_encoder inp (handle_keys inp s)")
    case (Inl h)
    with es show ?thesis by (simp add: loop_body_final handle_keys_trace)
  next
    case (Inr s2)
    with es show ?thesis by (simp add: loop_body_final handle_keys_trace trace_emit)
  qed
qed

lemma loop_body_callbacks:
  "callbacks (new_effects s (final_state (loop_body inp s))) =
     callbacks (key_rule KEY1 (PIN_KEY KEY1 inp) (keylast KEY1 s)) @
     callbacks (key_rule KEY2 (PIN_KEY KEY2 inp) (keylast KEY2 s)) @
     callbacks (key_rule KEY3 (PIN_KEY KEY3 inp) (keylast KEY3 s)) @
     callbacks (key_rule KEY4 (PIN_KEY KEY4 inp) (keylast KEY4 s)) @
     callbacks (key_rule KEY5 (PIN_KEY KEY5 inp) (keylast KEY5 s)) @
     callbacks (key_rule KEY6 (PIN_KEY KEY6 inp) (keylast KEY6 s)) @
     (if \<not> PIN_ENC_A inp
      then (if PIN_ENC_B inp then [CW_ACTION, CW_RELEASED] else [CCW_ACTION, CCW_RELEASED])
      else if \<not> isSwitchPressed s \<and> \<not> PIN_ENC_SW inp then [SW_PRESSED]
      else if isSwitchPressed s \<and> PIN_ENC_SW inp then [SW_RELEASED]
      else [])"
proof (rule new_callbacks [OF loop_body_extends])
  let ?k = "handle_keys inp s"
  have "callbacks (trace (final_state (loop_body inp s))) =
      callbacks (trace (final_state (handle_encoder inp ?k)))"
    by (cases "handle_encoder inp ?k")
      (simp_all add: loop_body_final trace_emit callbacks_append)
  then show "callbacks (trace (final_state (loop_body inp s))) = callbacks (trace s) @
     callbacks (key_rule KEY1 (PIN_KEY KEY1 inp) (keylast KEY1 s)) @
     callbacks (key_rule KEY2 (PIN_KEY KEY2 inp) (keylast KEY2 s)) @
     callbacks (key_rule KEY3 (PIN_KEY KEY3 inp) (keylast KEY3 s)) @
     callbacks (key_rule KEY4 (PIN_KEY KEY4 inp) (keylast KEY4 s)) @
     callbacks (key_rule KEY5 (PIN_KEY KEY5 inp) (keylast KEY5 s)) @
     callbacks (key_rule KEY6 (PIN_KEY KEY6 inp) (keylast KEY6 s)) @
     (if \<not> PIN_ENC_A inp
      then (if PIN_ENC_B inp then [CW_ACTION, CW_RELEASED] else [CCW_ACTION, CCW_RELEASED])
      else if \<not> isSwitchPressed s \<and> \<not> PIN_ENC_SW inp then [SW_PRESSED]
      else if isSwitchPressed s \<and> PIN_ENC_SW inp then [SW_RELEASED]
      else [])"
    by (simp only: handle_encoder_callbacks handle_keys_trace handle_keys_other
        callbacks_append append_assoc)
qed

lemma loop_body_keylast: "keylast k (final_state (loop_body inp s)) = (\<not> PIN_KEY k inp)"
proof -
  have "keylast k (final_state (loop_body inp s)) = keylast k (handle_keys inp s)"
    by (cases "handle_encoder inp (handle_keys inp s)"; cases k;
        cases "PIN_ENC_A inp";
        simp add: loop_body_idle loop_body_turned emit_def handle_switch_fields
          handle_rotation_fields split: option.split)
  then show ?thesis by (simp only: handle_keys_keylast)
qed

lemma loop_body_switch:
  "isSwitchPressed (final_state (loop_body inp s)) =
     (if PIN_ENC_A inp then \<not> PIN_ENC_SW inp else isSwitchPressed s)"
  by (cases "PIN_ENC_A inp")
    (simp_all add: loop_body_idle loop_body_turned emit_def handle_switch_fields
      handle_rotation_fields handle_keys_other split: option.split)

subsection \<open>Events of one key\<close>

lemma count_key_rule:
  "e \<noteq> PRESSED k \<Longrightarrow> e \<noteq> RELEASED k \<Longrightarrow> e \<noteq> HOLD k \<Longrightarrow>
   count_list (callbacks (key_rule k pin lastPressed)) e = 0"
  by (simp add: callbacks_key_rule)

lemma key_events_append: "key_events k (xs @ ys) = key_events k xs @ key_events k ys"
  by (simp add: key_events_def)

lemma key_events_key_rule:
  "key_events k (callbacks (key_rule k' pin lastPressed)) =
     (if k' = k then callbacks (key_rule k pin lastPressed) else [])"
  by (auto simp add: key_events_def callbacks_key_rule)

lemma key_events_encoder:
  "key_events k
     (if a then (if b then [CW_ACTION, CW_RELEASED] else [CCW_ACTION, CCW_RELEASED])
      else if c then [SW_PRESSED] else if d then [SW_RELEASED] else []) = []"
  by (simp add: key_events_def)

lemma loop_body_key_events:
  "key_events k (callbacks (new_effects s (final_state (loop_body inp s)))) =
     callbacks (key_rule k (PIN_KEY k inp) (keylast k s))"
  unfolding loop_body_callbacks key_events_append key_events_key_rule key_events_encoder
  by (cases k) (simp_all only: key.distinct if_True if_False append_Nil append_Nil2 refl)

lemma run_key_events:
  assumes "\<And>inp. inp \<in> set ins \<Longrightarrow> PIN_ENC_A inp \<or> (\<exists>n. PIN_ENC_A_wait inp n)"
  shows "\<exists>s'. run ins s = Inr s' \<and> (\<exists>es. trace s' = trace s @ es)
     \<and> key_events k (callbacks (new_effects s s')) =
         key_trace k (keylast k s) (map (PIN_KEY k) ins)"
  using assms
proof (induction ins arbitrary: s)
  case Nil
  then show ?case by (simp add: new_effects_self key_events_def)
next
  case (Cons inp ins)
  have "PIN_ENC_A inp \<or> (\<exists>n. PIN_ENC_A_wait inp n)" using Cons.prems by simp
  then obtain s1 where s1: "loop_body inp s = Inr s1"
    using loop_body_returns [of inp s] by blast
  then have fin: "final_state (loop_body inp s) = s1" by simp
  have ext1: "\<exists>es. trace s1 = trace s @ es"
    using loop_body_extends [of inp s] fin by simp
  have ev1: "key_events k (callbacks (new_effects s s1)) =
      callbacks (key_rule k (PIN_KEY k inp) (keylast k s))"
    using loop_body_key_events [of k s inp] fin by simp
  have last1: "keylast k s1 = (\<not> PIN_KEY k inp)"
    using loop_body_keylast [of k inp s] fin by simp
  obtain s' where s': "run ins s1 = Inr s'" and ext2: "\<exists>es. trace s' = trace s1 @ es"
    and ev2: "key_events k (callbacks (new_effects s1 s')) =
      key_trace k (keylast k s1) (map (PIN_KEY k) ins)"
    using Cons.IH [of s1] Cons.prems by auto
  have "new_effects s s' = new_effects s s1 @ new_effects s1 s'"
    using ext1 ext2 by (rule new_effects_trans)
  then have "key_events k (callbacks (new_effects s s')) =
      key_trace k (keylast k s) (map (PIN_KEY k) (inp # ins))"
    using ev1 ev2 last1 by (simp add: callbacks_append key_events_append)
  moreover have "\<exists>es. trace s' = trace s @ es" using ext1 ext2 by auto
  ultimately show ?case using s1 s' by simp
qed

lemma key_trace_hold:
  "key_trace k True (replicate n False @ [True]) = replicate n (HOLD k) @ [RELEASED k]"
  by (induction n) (simp_all add: callbacks_key_rule)

lemma count_key_events:
  "e = PRESSED k \<or> e = RELEASED k \<or> e = HOLD k \<Longrightarrow>
   count_list (key_events k es) e = count_list es e"
  by (induction es) (auto simp add: key_events_def)

lemma count_replicate: "count_list (replicate n x) y = (if x = y then n else 0)"
  by (induction n) auto

subsection \<open>The view of one key\<close>

lemma key_view_append: "key_view k (xs @ ys) = key_view k xs @ key_view k ys"
  by (simp add: key_view_def)

lemma key_view_key_rule:
  "key_view k (key_rule k' pin lastPressed) =
     (if k' = k \<and> (\<not> pin) \<noteq> lastPressed
      then (if \<not> pin
            then [NEO_writeHue (key_pixel k) (key_hue k) NEO_BRIGHT_KEYS, Callback (PRESSED k)]
            else [NEO_clearPixel (key_pixel k), Callback (RELEASED k)])
      else [])"
  by (cases k; cases k') (simp_all add: key_view_def key_rule_def Let_def)

lemma key_view_ring_loop: "key_view k (trace (ring_loop i j s)) = key_view k (trace s)"
  unfolding key_view_def
  by (rule ring_loop_filter) (simp add: NEO_BRIGHT_ENC_def NEO_BRIGHT_KEYS_def)

lemma key_view_update: "key_view k (trace (NEO_encoder_update s)) = key_view k (trace s)"
  using key_view_ring_loop [of k 6 "neoencoder s" s]
  by (simp add: NEO_encoder_update_def trace_emit key_view_append) (simp add: key_view_def)

lemma key_view_rotation: "key_view k (trace (handle_rotation b s)) = key_view k (trace s)"
proof -
  have e: "key_view k (trace (emit x t)) = key_view k (trace t) @ key_view k [x]" for x t
    by (simp add: trace_emit key_view_append)
  have n: "key_view k [Callback CW_ACTION] = []" "key_view k [Callback CCW_ACTION] = []"
    "key_view k [Callback CW_RELEASED] = []" "key_view k [Callback CCW_RELEASED] = []"
    "key_view k [CON_press c] = []" "key_view k [CON_release] = []" "key_view k [DLY_ms d] = []"
    for c d
    by (simp_all add: key_view_def)
  show ?thesis
    by (simp add: handle_rotation_def enc_callback_defs exec_Nil exec_Cons
        NEO_encoder_cw_def NEO_encoder_ccw_def Let_def key_view_update e n)
qed

lemma key_view_encoder:
  "key_view k (trace (final_state (handle_encoder inp s))) = key_view k (trace s)"
  by (simp add: handle_encoder_final key_view_rotation handle_switch_trace key_view_append)
    (simp add: key_view_def)

lemma loop_body_key_view:
  "key_view k (new_effects s (final_state (loop_body inp s))) =
     key_view k (key_rule k (PIN_KEY k inp) (keylast k s))"
proof -
  let ?s' = "final_state (loop_body inp s)"
  let ?k = "handle_keys inp s"
  obtain es where es: "trace ?s' = trace s @ es" using loop_body_extends by blast
  then have ne: "new_effects s ?s' = es" by (rule new_effectsI)
  have "key_view k (trace ?s') = key_view k (trace (final_state (handle_encoder inp ?k)))"
    by (cases "handle_encoder inp ?k")
      (simp_all add: loop_body_final trace_emit key_view_append, simp add: key_view_def)
  also have "\<dots> = key_view k (trace ?k)" by (rule key_view_encoder)
  also have "\<dots> = key_view k (trace s) @ key_view k (key_rule k (PIN_KEY k inp) (keylast k s))"
    unfolding handle_keys_trace key_view_append key_view_key_rule
    by (cases k) (simp_all only: key.distinct if_True if_False append_Nil append_Nil2 simp_thms)
  finally have "key_view k (trace s) @ key_view k es =
      key_view k (trace s) @ key_view k (key_rule k (PIN_KEY k inp) (keylast k s))"
    unfolding es key_view_append .
  then show ?thesis unfolding ne by simp
qed

subsection \<open>Claims about the ring phase\<close>

text \<open>
  Claim C1.  Starting from \<open>neoencoder = 0\<close>, after \<open>k\<close> calls of \<open>NEO_encoder_cw\<close> the
  phase is \<open>8 k mod 192\<close>, and \<open>k\<close> further calls of \<open>NEO_encoder_ccw\<close> bring it back to
  0.  The two functions wrap differently (the last two equations, for any state):
  \<open>NEO_encoder_cw\<close> subtracts 192 after an overflow past 191, \<open>NEO_encoder_ccw\<close>
  subtracts 64 after the 8-bit subtraction has wrapped below 0 (which already added 256),
  so both are steps of 8 modulo 192.
\<close>

theorem ring_phase_round_trip:
  assumes "neoencoder s = 0"
  shows "unat (neoencoder ((NEO_encoder_cw ^^ k) s)) = (8 * k) mod 192
    \<and> neoencoder ((NEO_encoder_ccw ^^ k) ((NEO_encoder_cw ^^ k) s)) = 0
    \<and> neoencoder (NEO_encoder_cw t) =
        (if neoencoder t + 8 \<ge> 192 then neoencoder t + 8 - 192 else neoencoder t + 8)
    \<and> neoencoder (NEO_encoder_ccw t) =
        (if neoencoder t - 8 \<ge> 192 then neoencoder t - 8 - 64 else neoencoder t - 8)"
proof -
  let ?t = "(NEO_encoder_cw ^^ k) s"
  have s: "unat (neoencoder s) < 192" using assms by simp
  have cw: "unat (neoencoder ?t) = (8 * k) mod 192"
    using cw_funpow [OF s, of k] assms by simp
  then have "unat (neoencoder ?t) < 192" by simp
  then have "unat (neoencoder ((NEO_encoder_ccw ^^ k) ?t)) = ((8 * k) mod 192 + 184 * k) mod 192"
    unfolding cw [symmetric] by (rule ccw_funpow)
  also have "\<dots> = (8 * k + 184 * k) mod 192" by (rule mod_add_left_eq)
  also have "\<dots> = (192 * k) mod 192" by (simp add: algebra_simps)
  also have "\<dots> = 0" by simp
  finally have "neoencoder ((NEO_encoder_ccw ^^ k) ?t) = 0" by (simp add: unat_eq_0)
  with cw show ?thesis
    by (simp only: NEO_encoder_cw_phase NEO_encoder_ccw_phase simp_thms)
qed

text \<open>Thirty steps each way from the initial state: the phase passes 191 once.\<close>

theorem ring_phase_round_trip_witness:
  "neoencoder initial_state = 0
   \<and> unat (neoencoder ((NEO_encoder_cw ^^ 30) initial_state)) = 48
   \<and> neoencoder ((NEO_encoder_ccw ^^ 30) ((NEO_encoder_cw ^^ 30) initial_state)) = 0"
  using ring_phase_round_trip [of initial_state 30] by (simp add: initial_state_def)

text \<open>
  Claim C8.  The ring phase \<open>neoencoder\<close> stays in the range 0..191: it starts at 0, both
  rotation functions and a whole loop iteration keep it below 192, and so does the whole
  program for every boot decision and every sequence of inputs.  Nothing but the two
  rotation functions changes it: \<open>NEO_encoder_update\<close>, the key blocks and the switch
  block leave it as it is, and a loop iteration changes it as one call of
  \<open>NEO_encoder_cw\<close> or of \<open>NEO_encoder_ccw\<close> does when phase A reads low, and not at all
  when phase A reads high.
\<close>

theorem ring_phase_range:
  "neoencoder initial_state = 0
   \<and> (unat (neoencoder s) < 192 \<longrightarrow>
        unat (neoencoder (NEO_encoder_cw s)) < 192
        \<and> unat (neoencoder (NEO_encoder_ccw s)) < 192
        \<and> unat (neoencoder (final_state (loop_body inp s))) < 192)
   \<and> neoencoder (NEO_encoder_update s) = neoencoder s
   \<and> neoencoder (handle_key k pin s) = neoencoder s
   \<and> neoencoder (handle_switch pin_sw s) = neoencoder s
   \<and> neoencoder (final_state (loop_body inp s)) =
       (if PIN_ENC_A inp then neoencoder s
        else if PIN_ENC_B inp then neoencoder (NEO_encoder_cw s)
        else neoencoder (NEO_encoder_ccw s))
   \<and> unat (neoencoder (final_state (main neo_count boot_sw ins))) < 192"
proof -
  have "neoencoder initial_state = 0" by (simp add: initial_state_def)
  moreover have "unat (neoencoder (NEO_encoder_cw s)) < 192" if "unat (neoencoder s) < 192"
    using cw_unat [OF that] by simp
  moreover have "unat (neoencoder (NEO_encoder_ccw s)) < 192" if "unat (neoencoder s) < 192"
    using ccw_unat [OF that] by simp
  moreover have "unat (neoencoder (final_state (loop_body inp s))) < 192"
    if "unat (neoencoder s) < 192"
    using that by (rule loop_body_inv)
  moreover have "neoencoder (NEO_encoder_update s) = neoencoder s"
    by (rule NEO_encoder_update_fields)
  moreover have "neoencoder (handle_key k pin s) = neoencoder s"
    by (rule handle_key_other)
  moreover have "neoencoder (handle_switch pin_sw s) = neoencoder s"
    by (rule handle_switch_fields)
  moreover have "neoencoder (final_state (loop_body inp s)) =
       (if PIN_ENC_A inp then neoencoder s
        else if PIN_ENC_B inp then neoencoder (NEO_encoder_cw s)
        else neoencoder (NEO_encoder_ccw s))"
    by (simp add: loop_body_phase NEO_encoder_cw_phase NEO_encoder_ccw_phase handle_keys_other)
  moreover have "unat (neoencoder (final_state (main neo_count boot_sw ins))) < 192"
    by (rule main_inv)
  ultimately show ?thesis by blast
qed

text \<open>
  At the initial state, with an idle iteration, and for a run that turns the knob
  counter-clockwise once (the phase goes from 0 to 184).
\<close>

theorem ring_phase_range_witness:
  "unat (neoencoder initial_state) < 192
   \<and> unat (neoencoder (NEO_encoder_cw initial_state)) < 192
   \<and> unat (neoencoder (NEO_encoder_ccw initial_state)) < 192
   \<and> PIN_ENC_A idle_inputs
   \<and> neoencoder (final_state (loop_body idle_inputs initial_state)) = neoencoder initial_state
   \<and> unat (neoencoder (final_state
        (main 18 True [idle_inputs\<lparr>PIN_ENC_A := False, PIN_ENC_B := False\<rparr>]))) < 192"
  using ring_phase_range [where s = initial_state and inp = idle_inputs and neo_count = 18
      and boot_sw = True and ins = "[idle_inputs\<lparr>PIN_ENC_A := False, PIN_ENC_B := False\<rparr>]"]
  by (simp add: initial_state_def idle_inputs_def)

subsection \<open>Claims about the key blocks\<close>

text \<open>
  Claim C4.  Each of the six key blocks follows the key rule of the spec
  (\<open>key_rule\<close>) with its own pin, flag, pixel and hue: the pressed state now is the
  negation of the pin level; when it differs from the stored flag, the flag becomes the
  pressed state now, and the block lights the key's pixel at the key's hue at brightness
  \<open>NEO_BRIGHT_KEYS\<close> and calls PRESSED, or clears the pixel and calls RELEASED.  The
  block of one key leaves the flags of the other keys, the switch flag and the ring phase
  as they are, and in a whole iteration the flag and the callbacks of a key depend on
  the pin and the flag of this key only.
\<close>

theorem key_transition_rule:
  "(let currentPressed = (\<not> pin); s' = handle_key k pin s in
      new_effects s s' = key_rule k pin (keylast k s)
      \<and> (currentPressed \<noteq> keylast k s \<longrightarrow>
           keylast k s' = currentPressed
           \<and> (currentPressed \<longrightarrow>
                new_effects s s' =
                  [NEO_writeHue (key_pixel k) (key_hue k) NEO_BRIGHT_KEYS, NEO_update,
                   Callback (PRESSED k)] @ pressed_body k)
           \<and> (\<not> currentPressed \<longrightarrow>
                new_effects s s' =
                  [NEO_clearPixel (key_pixel k), NEO_update, Callback (RELEASED k)]
                  @ released_body k))
      \<and> (currentPressed = keylast k s \<longrightarrow> keylast k s' = keylast k s)
      \<and> (\<forall>k'. k' \<noteq> k \<longrightarrow> keylast k' s' = keylast k' s)
      \<and> isSwitchPressed s' = isSwitchPressed s
      \<and> neoencoder s' = neoencoder s)
   \<and> (let s2 = final_state (loop_body inp s) in
        keylast k s2 = (\<not> PIN_KEY k inp)
        \<and> key_events k (callbacks (new_effects s s2)) =
            callbacks (key_rule k (PIN_KEY k inp) (keylast k s))
        \<and> key_view k (new_effects s s2) =
            key_view k (key_rule k (PIN_KEY k inp) (keylast k s)))"
proof -
  let ?s' = "handle_key k pin s"
  have ne: "new_effects s ?s' = key_rule k pin (keylast k s)"
    by (rule new_effectsI) (rule handle_key_trace)
  have fl: "keylast k' ?s' = (if k' = k then \<not> pin else keylast k' s)" for k'
    by (rule handle_key_keylast)
  have a: "new_effects s ?s' =
      [NEO_writeHue (key_pixel k) (key_hue k) NEO_BRIGHT_KEYS, NEO_update,
       Callback (PRESSED k)] @ pressed_body k"
    if "(\<not> pin) \<noteq> keylast k s" "\<not> pin"
    unfolding ne using that by (simp add: key_rule_def Let_def)
  have b: "new_effects s ?s' =
      [NEO_clearPixel (key_pixel k), NEO_update, Callback (RELEASED k)] @ released_body k"
    if "(\<not> pin) \<noteq> keylast k s" "pin"
    unfolding ne using that by (simp add: key_rule_def Let_def)
  have c: "keylast k ?s' = (\<not> pin)" "\<forall>k'. k' \<noteq> k \<longrightarrow> keylast k' ?s' = keylast k' s"
    by (simp_all add: fl del: keylast.simps handle_key.simps)
  have d: "isSwitchPressed ?s' = isSwitchPressed s" "neoencoder ?s' = neoencoder s"
    by (rule handle_key_other)+
  have first: "let currentPressed = (\<not> pin); s' = handle_key k pin s in
      new_effects s s' = key_rule k pin (keylast k s)
      \<and> (currentPressed \<noteq> keylast k s \<longrightarrow>
           keylast k s' = currentPressed
           \<and> (currentPressed \<longrightarrow>
                new_effects s s' =
                  [NEO_writeHue (key_pixel k) (key_hue k) NEO_BRIGHT_KEYS, NEO_update,
                   Callback (PRESSED k)] @ pressed_body k)
           \<and> (\<not> currentPressed \<longrightarrow>
                new_effects s s' =
                  [NEO_clearPixel (key_pixel k), NEO_update, Callback (RELEASED k)]
                  @ released_body k))
      \<and> (currentPressed = keylast k s \<longrightarrow> keylast k s' = keylast k s)
      \<and> (\<forall>k'. k' \<noteq> k \<longrightarrow> keylast k' s' = keylast k' s)
      \<and> isSwitchPressed s' = isSwitchPressed s
      \<and> neoencoder s' = neoencoder s"
    unfolding Let_def using ne a b c d by blast
  have second: "let s2 = final_state (loop_body inp s) in
        keylast k s2 = (\<not> PIN_KEY k inp)
        \<and> key_events k (callbacks (new_effects s s2)) =
            callbacks (key_rule k (PIN_KEY k inp) (keylast k s))
        \<and> key_view k (new_effects s s2) =
            key_view k (key_rule k (PIN_KEY k inp) (keylast k s))"
    unfolding Let_def
    by (intro conjI loop_body_keylast loop_body_key_events loop_body_key_view)
  from first second show ?thesis by (rule conjI)
qed

text \<open>
  Key 6 pressed from the initial state, and released from a state in which it is down,
  in an iteration in which key 2 is pressed as well.
\<close>

theorem key_transition_rule_witness:
  "(\<not> False) \<noteq> keylast KEY6 initial_state
   \<and> keylast KEY6 (handle_key KEY6 False initial_state)
   \<and> new_effects initial_state (handle_key KEY6 False initial_state) =
       [NEO_writeHue 5 160 2, NEO_update, Callback (PRESSED KEY6), KBD_press CHR ''f'']
   \<and> KEY2 \<noteq> KEY6
   \<and> keylast KEY2 (handle_key KEY6 False initial_state) = keylast KEY2 initial_state
   \<and> (\<not> True) \<noteq> keylast KEY6 (initial_state\<lparr>key6last := True\<rparr>)
   \<and> \<not> keylast KEY6 (handle_key KEY6 True (initial_state\<lparr>key6last := True\<rparr>))
   \<and> new_effects (initial_state\<lparr>key6last := True\<rparr>)
        (handle_key KEY6 True (initial_state\<lparr>key6last := True\<rparr>)) =
       [NEO_clearPixel 5, NEO_update, Callback (RELEASED KEY6), KBD_release CHR ''f'']
   \<and> key_events KEY6 (callbacks (new_effects (initial_state\<lparr>key6last := True\<rparr>)
        (final_state (loop_body (idle_inputs\<lparr>PIN_KEY2 := False\<rparr>)
           (initial_state\<lparr>key6last := True\<rparr>))))) = [RELEASED KEY6]"
proof -
  let ?down = "initial_state\<lparr>key6last := True\<rparr>"
  let ?inp = "idle_inputs\<lparr>PIN_KEY2 := False\<rparr>"
  have pre: "(\<not> False) \<noteq> keylast KEY6 initial_state" "(\<not> True) \<noteq> keylast KEY6 ?down"
    "keylast KEY2 initial_state = False" "keylast KEY6 ?down" "PIN_KEY KEY6 ?inp"
    by (simp_all add: initial_state_def idle_inputs_def)
  note press = key_transition_rule [of False KEY6 initial_state ?inp, unfolded Let_def]
  note release = key_transition_rule [of True KEY6 ?down ?inp, unfolded Let_def]
  have p1: "keylast KEY6 (handle_key KEY6 False initial_state)"
    using press pre(1) by blast
  have "new_effects initial_state (handle_key KEY6 False initial_state) =
      [NEO_writeHue (key_pixel KEY6) (key_hue KEY6) NEO_BRIGHT_KEYS, NEO_update,
       Callback (PRESSED KEY6)] @ pressed_body KEY6"
    using press pre(1) by blast
  then have p2: "new_effects initial_state (handle_key KEY6 False initial_state) =
      [NEO_writeHue 5 160 2, NEO_update, Callback (PRESSED KEY6), KBD_press CHR ''f'']"
    by (simp add: NEO_KEY6_def NEO_BRIGHT_KEYS_def del: handle_key.simps)
  have p3: "keylast KEY2 (handle_key KEY6 False initial_state) = keylast KEY2 initial_state"
    using press by blast
  have r1: "\<not> keylast KEY6 (handle_key KEY6 True ?down)"
    using release pre(2) by blast
  have "new_effects ?down (handle_key KEY6 True ?down) =
      [NEO_clearPixel (key_pixel KEY6), NEO_update, Callback (RELEASED KEY6)]
      @ released_body KEY6"
    using release pre(2) by blast
  then have r2: "new_effects ?down (handle_key KEY6 True ?down) =
      [NEO_clearPixel 5, NEO_update, Callback (RELEASED KEY6), KBD_release CHR ''f'']"
    by (simp del: handle_key.simps)
  have "key_events KEY6 (callbacks (new_effects ?down (final_state (loop_body ?inp ?down))))
      = callbacks (key_rule KEY6 (PIN_KEY KEY6 ?inp) (keylast KEY6 ?down))"
    using release by blast
  then have r3: "key_events KEY6 (callbacks (new_effects ?down
      (final_state (loop_body ?inp ?down)))) = [RELEASED KEY6]"
    using pre(4,5) by (simp add: callbacks_key_rule)
  show ?thesis
    using pre(1,2) p1 p2 p3 r1 r2 r3 by (simp only: key.distinct simp_thms)
qed

text \<open>
  Claim C3.  In an iteration in which a key changes state, its block first writes or
  clears the key's pixel, then calls \<open>NEO_update\<close>, and only then enters the callback:
  PRESSED after the write when the pin reads low, RELEASED after the clear when the pin
  reads high.  Seen over the whole iteration, among the calls that concern this key the
  pixel command comes first and the callback second, and there are no others.
\<close>

theorem led_before_callback:
  assumes "(\<not> pin) \<noteq> keylast k s"
  shows "new_effects s (handle_key k pin s) =
           (if \<not> pin
            then [NEO_writeHue (key_pixel k) (key_hue k) NEO_BRIGHT_KEYS, NEO_update,
                  Callback (PRESSED k)] @ pressed_body k
            else [NEO_clearPixel (key_pixel k), NEO_update, Callback (RELEASED k)]
                  @ released_body k)
         \<and> (PIN_KEY k inp = pin \<longrightarrow>
              key_view k (new_effects s (final_state (loop_body inp s))) =
                (if \<not> pin
                 then [NEO_writeHue (key_pixel k) (key_hue k) NEO_BRIGHT_KEYS,
                       Callback (PRESSED k)]
                 else [NEO_clearPixel (key_pixel k), Callback (RELEASED k)]))"
proof -
  have "new_effects s (handle_key k pin s) = key_rule k pin (keylast k s)"
    by (rule new_effectsI) (rule handle_key_trace)
  then have a: "new_effects s (handle_key k pin s) =
           (if \<not> pin
            then [NEO_writeHue (key_pixel k) (key_hue k) NEO_BRIGHT_KEYS, NEO_update,
                  Callback (PRESSED k)] @ pressed_body k
            else [NEO_clearPixel (key_pixel k), NEO_update, Callback (RELEASED k)]
                  @ released_body k)"
    using assms by (simp add: key_rule_def Let_def)
  have b: "key_view k (new_effects s (final_state (loop_body inp s))) =
                (if \<not> pin
                 then [NEO_writeHue (key_pixel k) (key_hue k) NEO_BRIGHT_KEYS,
                       Callback (PRESSED k)]
                 else [NEO_clearPixel (key_pixel k), Callback (RELEASED k)])"
    if "PIN_KEY k inp = pin"
    unfolding loop_body_key_view key_view_key_rule using that assms by simp
  from a b show ?thesis by blast
qed

text \<open>Key 4 pressed from the initial state, and released again after one iteration.\<close>

theorem led_before_callback_witness:
  "(\<not> False) \<noteq> keylast KEY4 initial_state
   \<and> new_effects initial_state (handle_key KEY4 False initial_state) =
       [NEO_writeHue 3 96 2, NEO_update, Callback (PRESSED KEY4), KBD_press CHR ''d'']
   \<and> PIN_KEY KEY4 (idle_inputs\<lparr>PIN_KEY4 := False\<rparr>) = False
   \<and> key_view KEY4 (new_effects initial_state
        (final_state (loop_body (idle_inputs\<lparr>PIN_KEY4 := False\<rparr>) initial_state))) =
       [NEO_writeHue 3 96 2, Callback (PRESSED KEY4)]
   \<and> (\<not> True) \<noteq> keylast KEY4 (initial_state\<lparr>key4last := True\<rparr>)
   \<and> new_effects (initial_state\<lparr>key4last := True\<rparr>)
        (handle_key KEY4 True (initial_state\<lparr>key4last := True\<rparr>)) =
       [NEO_clearPixel 3, NEO_update, Callback (RELEASED KEY4), KBD_release CHR ''d'']"
proof -
  let ?down = "initial_state\<lparr>key4last := True\<rparr>"
  have pre: "(\<not> False) \<noteq> keylast KEY4 initial_state" "(\<not> True) \<noteq> keylast KEY4 ?down"
    "PIN_KEY KEY4 (idle_inputs\<lparr>PIN_KEY4 := False\<rparr>) = False"
    by (simp_all add: initial_state_def idle_inputs_def)
  show ?thesis
    using led_before_callback [OF pre(1), of "idle_inputs\<lparr>PIN_KEY4 := False\<rparr>"]
      led_before_callback [OF pre(2), of idle_inputs] pre
    by (simp add: NEO_KEY4_def NEO_BRIGHT_KEYS_def)
qed

text \<open>
  Claim C10.  When the pressed state computed from a key's pin equals the stored flag and
  the flag is clear (the key is up and was up), the key's block changes nothing: the
  state after it, trace included, is the state before it, so no LED command is issued,
  no callback runs and the flag keeps its value.
\<close>

theorem key_idle_no_effect:
  assumes "(\<not> pin) = keylast k s" and "\<not> keylast k s"
  shows "handle_key k pin s = s
         \<and> new_effects s (handle_key k pin s) = []
         \<and> keylast k (handle_key k pin s) = keylast k s"
proof -
  from assms have "pin" by simp
  then have "handle_key k pin s = s" using assms(2) by (rule handle_key_idle)
  then show ?thesis by (simp add: new_effects_self del: keylast.simps handle_key.simps)
qed

text \<open>Key 5 up with its flag clear, in a state that already has a trace.\<close>

theorem key_idle_no_effect_witness:
  "(\<not> True) = keylast KEY5 (emit WDT_reset initial_state)
   \<and> \<not> keylast KEY5 (emit WDT_reset initial_state)
   \<and> handle_key KEY5 True (emit WDT_reset initial_state) = emit WDT_reset initial_state
   \<and> trace (handle_key KEY5 True (emit WDT_reset initial_state)) = [WDT_reset]"
proof -
  let ?s = "emit WDT_reset initial_state"
  have pre: "(\<not> True) = keylast KEY5 ?s" "\<not> keylast KEY5 ?s"
    by (simp_all add: initial_state_def emit_def)
  have "handle_key KEY5 True ?s = ?s"
    using key_idle_no_effect [OF pre] by blast
  moreover have "trace ?s = [WDT_reset]" by (simp add: initial_state_def emit_def)
  ultimately show ?thesis using pre by (simp del: keylast.simps handle_key.simps)
qed

text \<open>
  Claim C5.  A key that is released at first, reads pressed in one iteration, stays
  pressed for \<open>n\<close> further iterations and then reads released: the run of these
  \<open>n + 2\<close> iterations returns (given that every busy-wait on phase A ends) and calls, for
  this key, PRESSED once, then HOLD \<open>n\<close> times, then RELEASED once, and nothing else.
  With \<open>n = 0\<close> this is the press-then-release cycle with no HOLD.  In every single
  iteration the HOLD callback of a key runs exactly when its flag is set and its pin still
  reads pressed, that is, when there is no transition and the key is down.
\<close>

theorem key_press_hold_release:
  assumes "\<not> keylast k s"
    and "map (PIN_KEY k) ins = False # replicate n False @ [True]"
    and "\<forall>inp \<in> set ins. PIN_ENC_A inp \<or> (\<exists>m. PIN_ENC_A_wait inp m)"
  shows "let s' = final_state (run ins s); cs = callbacks (new_effects s s') in
           run ins s = Inr s'
           \<and> key_events k cs = PRESSED k # replicate n (HOLD k) @ [RELEASED k]
           \<and> count_list cs (PRESSED k) = 1
           \<and> count_list cs (HOLD k) = n
           \<and> count_list cs (RELEASED k) = 1
           \<and> (HOLD k \<in> set (callbacks (new_effects t (final_state (loop_body inp t))))
                \<longleftrightarrow> keylast k t \<and> \<not> PIN_KEY k inp)"
proof -
  obtain s' where s': "run ins s = Inr s'"
    and ev: "key_events k (callbacks (new_effects s s')) =
      key_trace k (keylast k s) (map (PIN_KEY k) ins)"
    using run_key_events [of ins s k] assms(3) by blast
  let ?cs = "callbacks (new_effects s s')"
  have seq: "key_events k ?cs = PRESSED k # replicate n (HOLD k) @ [RELEASED k]"
    unfolding ev assms(2) using assms(1) by (simp add: callbacks_key_rule key_trace_hold)
  have c1: "count_list ?cs (PRESSED k) = 1"
    using count_key_events [of "PRESSED k" k ?cs] by (simp add: seq count_replicate)
  have c2: "count_list ?cs (HOLD k) = n"
    using count_key_events [of "HOLD k" k ?cs] by (simp add: seq count_replicate)
  have c3: "count_list ?cs (RELEASED k) = 1"
    using count_key_events [of "RELEASED k" k ?cs] by (simp add: seq count_replicate)
  let ?it = "callbacks (new_effects t (final_state (loop_body inp t)))"
  have "HOLD k \<in> set ?it \<longleftrightarrow> HOLD k \<in> set (key_events k ?it)"
    by (simp add: key_events_def)
  also have "\<dots> \<longleftrightarrow> keylast k t \<and> \<not> PIN_KEY k inp"
    unfolding loop_body_key_events by (auto simp add: callbacks_key_rule)
  finally have hold: "HOLD k \<in> set ?it \<longleftrightarrow> keylast k t \<and> \<not> PIN_KEY k inp" .
  show ?thesis
    using s' seq c1 c2 c3 hold by (simp add: Let_def)
qed

text \<open>
  Key 3 from power-on, with the encoder at rest: pressed in one iteration and released
  in the next (no HOLD), and pressed for three iterations (so held across two) before
  it is released.
\<close>

theorem key_press_hold_release_witness:
  "\<not> keylast KEY3 initial_state
   \<and> map (PIN_KEY KEY3) [idle_inputs\<lparr>PIN_KEY3 := False\<rparr>, idle_inputs] = [False, True]
   \<and> key_events KEY3 (callbacks (new_effects initial_state (final_state
        (run [idle_inputs\<lparr>PIN_KEY3 := False\<rparr>, idle_inputs] initial_state)))) =
       [PRESSED KEY3, RELEASED KEY3]
   \<and> map (PIN_KEY KEY3)
        [idle_inputs\<lparr>PIN_KEY3 := False\<rparr>, idle_inputs\<lparr>PIN_KEY3 := False\<rparr>,
         idle_inputs\<lparr>PIN_KEY3 := False\<rparr>, idle_inputs] = [False, False, False, True]
   \<and> key_events KEY3 (callbacks (new_effects initial_state (final_state
        (run [idle_inputs\<lparr>PIN_KEY3 := False\<rparr>, idle_inputs\<lparr>PIN_KEY3 := False\<rparr>,
              idle_inputs\<lparr>PIN_KEY3 := False\<rparr>, idle_inputs] initial_state)))) =
       [PRESSED KEY3, HOLD KEY3, HOLD KEY3, RELEASED KEY3]"
proof -
  let ?tap = "[idle_inputs\<lparr>PIN_KEY3 := False\<rparr>, idle_inputs]"
  let ?ins = "[idle_inputs\<lparr>PIN_KEY3 := False\<rparr>, idle_inputs\<lparr>PIN_KEY3 := False\<rparr>,
         idle_inputs\<lparr>PIN_KEY3 := False\<rparr>, idle_inputs]"
  have a: "\<not> keylast KEY3 initial_state" by (simp add: initial_state_def)
  have b0: "map (PIN_KEY KEY3) ?tap = False # replicate 0 False @ [True]"
    by (simp add: idle_inputs_def)
  have c0: "\<forall>inp \<in> set ?tap. PIN_ENC_A inp \<or> (\<exists>m. PIN_ENC_A_wait inp m)"
    by (simp add: idle_inputs_def)
  have b: "map (PIN_KEY KEY3) ?ins = False # replicate (Suc (Suc 0)) False @ [True]"
    by (simp add: idle_inputs_def)
  have c: "\<forall>inp \<in> set ?ins. PIN_ENC_A inp \<or> (\<exists>m. PIN_ENC_A_wait inp m)"
    by (simp add: idle_inputs_def)
  show ?thesis
    using key_press_hold_release [OF a b0 c0] key_press_hold_release [OF a b c] a b0 b
    by (simp add: Let_def)
qed

text \<open>
  Claim C2, as the code has it.  Key 1 is up at first, its pin reads low in one iteration
  and high in the next, and both iterations return.  Then the key-1 block of the first
  iteration sets pixel 0 to hue 0 at brightness 2, calls \<open>NEO_update\<close> and then runs
  \<open>KEY1_PRESSED\<close>; the key-1 block of the second iteration clears pixel 0, calls
  \<open>NEO_update\<close> and then runs \<open>KEY1_RELEASED\<close>.  Over the two iterations the calls that
  concern key 1 are, in this order: the pixel write, PRESSED, the pixel clear, RELEASED.
  Each pixel command comes before its callback, not after it.
\<close>

theorem key1_press_release:
  assumes "\<not> key1last s" and "\<not> PIN_KEY1 i1" and "PIN_KEY1 i2"
    and "PIN_ENC_A i1 \<or> (\<exists>m. PIN_ENC_A_wait i1 m)"
    and "PIN_ENC_A i2 \<or> (\<exists>m. PIN_ENC_A_wait i2 m)"
  shows "let s1 = final_state (loop_body i1 s); s2 = final_state (loop_body i2 s1) in
           run [i1, i2] s = Inr s2
           \<and> new_effects s (handle_key1 (PIN_KEY1 i1) s) =
               [NEO_writeHue 0 0 2, NEO_update, Callback (PRESSED KEY1),
                CON_press CON_MEDIA_STOP]
           \<and> new_effects s1 (handle_key1 (PIN_KEY1 i2) s1) =
               [NEO_clearPixel 0, NEO_update, Callback (RELEASED KEY1), CON_release]
           \<and> key_view KEY1 (new_effects s s2) =
               [NEO_writeHue 0 0 2, Callback (PRESSED KEY1),
                NEO_clearPixel 0, Callback (RELEASED KEY1)]"
proof -
  let ?s1 = "final_state (loop_body i1 s)"
  let ?s2 = "final_state (loop_body i2 ?s1)"
  have r1: "loop_body i1 s = Inr ?s1" using assms(4) by (rule loop_body_Inr)
  have r2: "loop_body i2 ?s1 = Inr ?s2" using assms(5) by (rule loop_body_Inr)
  have "run [i1, i2] s = run [i2] ?s1" using r1 by (rule run_step)
  also have "\<dots> = run [] ?s2" using r2 by (rule run_step)
  finally have run: "run [i1, i2] s = Inr ?s2" by simp
  have down: "key1last ?s1"
    using loop_body_keylast [of KEY1 i1 s] assms(2) by simp
  have "new_effects s (handle_key KEY1 (PIN_KEY1 i1) s) =
      key_rule KEY1 (PIN_KEY1 i1) (keylast KEY1 s)"
    by (rule new_effectsI) (rule handle_key_trace)
  then have e1: "new_effects s (handle_key1 (PIN_KEY1 i1) s) =
      [NEO_writeHue 0 0 2, NEO_update, Callback (PRESSED KEY1), CON_press CON_MEDIA_STOP]"
    using assms(1,2) by (simp add: key_rule_def NEO_KEY1_def NEO_BRIGHT_KEYS_def)
  have "new_effects ?s1 (handle_key KEY1 (PIN_KEY1 i2) ?s1) =
      key_rule KEY1 (PIN_KEY1 i2) (keylast KEY1 ?s1)"
    by (rule new_effectsI) (rule handle_key_trace)
  then have e2: "new_effects ?s1 (handle_key1 (PIN_KEY1 i2) ?s1) =
      [NEO_clearPixel 0, NEO_update, Callback (RELEASED KEY1), CON_release]"
    using down assms(3) by (simp add: key_rule_def)
  have v1: "key_view KEY1 (new_effects s ?s1) = [NEO_writeHue 0 0 2, Callback (PRESSED KEY1)]"
    unfolding loop_body_key_view key_view_key_rule
    using assms(1,2) by (simp add: NEO_KEY1_def NEO_BRIGHT_KEYS_def)
  have v2: "key_view KEY1 (new_effects ?s1 ?s2) = [NEO_clearPixel 0, Callback (RELEASED KEY1)]"
    unfolding loop_body_key_view key_view_key_rule
    using down assms(3) by simp
  have "new_effects s ?s2 = new_effects s ?s1 @ new_effects ?s1 ?s2"
    using loop_body_extends loop_body_extends by (rule new_effects_trans)
  then have v: "key_view KEY1 (new_effects s ?s2) =
      [NEO_writeHue 0 0 2, Callback (PRESSED KEY1), NEO_clearPixel 0, Callback (RELEASED KEY1)]"
    by (simp add: key_view_append v1 v2)
  show ?thesis
    unfolding Let_def using run e1 e2 v by blast
qed

text \<open>From the initial state, with everything else at rest.\<close>

theorem key1_press_release_witness:
  "\<not> key1last initial_state
   \<and> \<not> PIN_KEY1 (idle_inputs\<lparr>PIN_KEY1 := False\<rparr>)
   \<and> PIN_KEY1 idle_inputs
   \<and> PIN_ENC_A idle_inputs
   \<and> key_view KEY1 (new_effects initial_state
        (final_state (loop_body idle_inputs
          (final_state (loop_body (idle_inputs\<lparr>PIN_KEY1 := False\<rparr>) initial_state))))) =
       [NEO_writeHue 0 0 2, Callback (PRESSED KEY1), NEO_clearPixel 0, Callback (RELEASED KEY1)]"
proof -
  let ?press = "idle_inputs\<lparr>PIN_KEY1 := False\<rparr>"
  have pre: "\<not> key1last initial_state" "\<not> PIN_KEY1 ?press" "PIN_KEY1 idle_inputs"
    "PIN_ENC_A ?press \<or> (\<exists>m. PIN_ENC_A_wait ?press m)"
    "PIN_ENC_A idle_inputs \<or> (\<exists>m. PIN_ENC_A_wait idle_inputs m)"
    "PIN_ENC_A idle_inputs"
    by (simp_all add: initial_state_def idle_inputs_def)
  have "key_view KEY1 (new_effects initial_state
        (final_state (loop_body idle_inputs (final_state (loop_body ?press initial_state))))) =
       [NEO_writeHue 0 0 2, Callback (PRESSED KEY1), NEO_clearPixel 0, Callback (RELEASED KEY1)]"
    using key1_press_release [OF pre(1-5), unfolded Let_def] by blast
  then show ?thesis using pre(1,2,3,6) by blast
qed

text \<open>
  The order the claim states (PRESSED, pixel set, RELEASED, pixel cleared) is not the
  order of the program run from power-on with key 1 pressed in the first iteration and
  released in the second.
\<close>

theorem key1_press_release_counterexample:
  "key_view KEY1 (trace (final_state
     (main 18 True [idle_inputs\<lparr>PIN_KEY1 := False\<rparr>, idle_inputs]))) \<noteq>
   [Callback (PRESSED KEY1), NEO_writeHue 0 0 2, Callback (RELEASED KEY1), NEO_clearPixel 0]"
  by code_simp

subsection \<open>Claims about the encoder\<close>

text \<open>
  Claim C6.  When phase A reads low, phase B decides the direction: high is clockwise,
  low is counter-clockwise.  In both cases, for a ring phase in its range 0..191 (where
  the program keeps it), the encoder block calls the ACTION callback
  of the direction, moves the ring phase by 8 modulo 192 in that direction and renders
  the ring at the new phase, waits 5 ms, and calls the RELEASED callback of the
  direction, in this order.  The block then waits for phase A to read high: it returns
  if phase A reads high at some later sample and hangs otherwise, after the same calls.
\<close>

theorem encoder_rotation:
  assumes "\<not> PIN_ENC_A inp" and "unat (neoencoder s) < 192"
  shows "let p = int (unat (neoencoder s));
             s' = final_state (handle_encoder inp s);
             q = unat (neoencoder s')
         in (PIN_ENC_B inp \<longrightarrow>
               new_effects s s' =
                 [Callback CW_ACTION, CON_press CON_VOL_UP] @ ring_frame q
                 @ [DLY_ms 5, Callback CW_RELEASED, CON_release]
               \<and> int q = (p + 8) mod 192)
          \<and> (\<not> PIN_ENC_B inp \<longrightarrow>
               new_effects s s' =
                 [Callback CCW_ACTION, CON_press CON_VOL_DOWN] @ ring_frame q
                 @ [DLY_ms 5, Callback CCW_RELEASED, CON_release]
               \<and> int q = (p - 8) mod 192)
          \<and> handle_encoder inp s =
               (if \<exists>n. PIN_ENC_A_wait inp n then Inr s' else Inl (Stuck s'))"
proof -
  let ?s' = "handle_rotation (PIN_ENC_B inp) s"
  let ?p = "unat (neoencoder s)"
  have fin: "final_state (handle_encoder inp s) = ?s'"
    using assms(1) by (simp add: handle_encoder_final)
  have cw: "unat (neoencoder ?s') = (?p + 8) mod 192" if "PIN_ENC_B inp"
    using that cw_unat [OF assms(2)] by (simp add: handle_rotation_phase)
  have ccw: "unat (neoencoder ?s') = (?p + 184) mod 192" if "\<not> PIN_ENC_B inp"
    using that ccw_unat [OF assms(2)] by (simp add: handle_rotation_phase)
  have tr: "trace ?s' = trace s @
     (if PIN_ENC_B inp
      then [Callback CW_ACTION, CON_press CON_VOL_UP] @ ring_frame ((?p + 8) mod 192)
           @ [DLY_ms 5, Callback CW_RELEASED, CON_release]
      else [Callback CCW_ACTION, CON_press CON_VOL_DOWN] @ ring_frame ((?p + 184) mod 192)
           @ [DLY_ms 5, Callback CCW_RELEASED, CON_release])"
    using assms(2) by (rule handle_rotation_trace)
  have a: "new_effects s ?s' =
      [Callback CW_ACTION, CON_press CON_VOL_UP] @ ring_frame (unat (neoencoder ?s'))
      @ [DLY_ms 5, Callback CW_RELEASED, CON_release]" if "PIN_ENC_B inp"
    using that tr cw by (intro new_effectsI) simp
  have b: "new_effects s ?s' =
      [Callback CCW_ACTION, CON_press CON_VOL_DOWN] @ ring_frame (unat (neoencoder ?s'))
      @ [DLY_ms 5, Callback CCW_RELEASED, CON_release]" if "\<not> PIN_ENC_B inp"
    using that tr ccw by (intro new_effectsI) simp
  have a': "int (unat (neoencoder ?s')) = (int ?p + 8) mod 192" if "PIN_ENC_B inp"
    using cw [OF that] by (simp add: zmod_int)
  have b': "int (unat (neoencoder ?s')) = (int ?p - 8) mod 192" if "\<not> PIN_ENC_B inp"
  proof -
    have "int (unat (neoencoder ?s')) = int ((?p + 184) mod 192)"
      using ccw [OF that] by (simp only:)
    also have "\<dots> = (int ?p + 184) mod 192"
      by (simp only: zmod_int of_nat_add of_nat_numeral)
    also have "\<dots> = (int ?p - 8) mod 192"
      by (rule int_minus8_mod [symmetric])
    finally show ?thesis .
  qed
  have ret: "handle_encoder inp s =
      (if \<exists>n. PIN_ENC_A_wait inp n then Inr ?s' else Inl (Stuck ?s'))"
    using assms(1) wait_detent_iff [of "PIN_ENC_A_wait inp"]
    by (auto simp add: handle_encoder_def Let_def split: option.splits)
  show ?thesis
    unfolding Let_def fin using a b a' b' ret by blast
qed

text \<open>One detent clockwise and one counter-clockwise from the initial state.\<close>

theorem encoder_rotation_witness:
  "\<not> PIN_ENC_A (idle_inputs\<lparr>PIN_ENC_A := False\<rparr>)
   \<and> unat (neoencoder initial_state) < 192
   \<and> PIN_ENC_B (idle_inputs\<lparr>PIN_ENC_A := False\<rparr>)
   \<and> new_effects initial_state
        (final_state (handle_encoder (idle_inputs\<lparr>PIN_ENC_A := False\<rparr>) initial_state)) =
       [Callback CW_ACTION, CON_press CON_VOL_UP] @ ring_frame 8
       @ [DLY_ms 5, Callback CW_RELEASED, CON_release]
   \<and> \<not> PIN_ENC_B (idle_inputs\<lparr>PIN_ENC_A := False, PIN_ENC_B := False\<rparr>)
   \<and> new_effects initial_state
        (final_state (handle_encoder (idle_inputs\<lparr>PIN_ENC_A := False, PIN_ENC_B := False\<rparr>)
           initial_state)) =
       [Callback CCW_ACTION, CON_press CON_VOL_DOWN] @ ring_frame 184
       @ [DLY_ms 5, Callback CCW_RELEASED, CON_release]"
proof -
  let ?cw = "idle_inputs\<lparr>PIN_ENC_A := False\<rparr>"
  let ?ccw = "idle_inputs\<lparr>PIN_ENC_A := False, PIN_ENC_B := False\<rparr>"
  have pre: "\<not> PIN_ENC_A ?cw" "\<not> PIN_ENC_A ?ccw" "PIN_ENC_B ?cw" "\<not> PIN_ENC_B ?ccw"
    "unat (neoencoder initial_state) < 192"
    by (simp_all add: idle_inputs_def initial_state_def)
  have p0: "int (unat (neoencoder initial_state)) = 0" by (simp add: initial_state_def)
  note cw = encoder_rotation [OF pre(1) pre(5), unfolded Let_def p0]
  note ccw = encoder_rotation [OF pre(2) pre(5), unfolded Let_def p0]
  from cw pre(3) have "int (unat (neoencoder (final_state (handle_encoder ?cw initial_state)))) = 8"
    by simp
  then have q1: "unat (neoencoder (final_state (handle_encoder ?cw initial_state))) = 8"
    by linarith
  from ccw pre(4)
  have "int (unat (neoencoder (final_state (handle_encoder ?ccw initial_state)))) = 184"
    by simp
  then have q2: "unat (neoencoder (final_state (handle_encoder ?ccw initial_state))) = 184"
    by linarith
  from cw pre(3) q1 have "new_effects initial_state (final_state (handle_encoder ?cw initial_state)) =
       [Callback CW_ACTION, CON_press CON_VOL_UP] @ ring_frame 8
       @ [DLY_ms 5, Callback CW_RELEASED, CON_release]"
    by simp
  moreover from ccw pre(4) q2
  have "new_effects initial_state (final_state (handle_encoder ?ccw initial_state)) =
       [Callback CCW_ACTION, CON_press CON_VOL_DOWN] @ ring_frame 184
       @ [DLY_ms 5, Callback CCW_RELEASED, CON_release]"
    by simp
  ultimately show ?thesis using pre by (simp only: simp_thms)
qed

text \<open>
  Claim C7.  The encoder switch is looked at only when phase A reads high.  Then the
  block returns, the stored flag becomes the pressed state of the pin, and the calls are:
  \<open>ENC_SW_PRESSED\<close> exactly when the flag was clear and the pin reads pressed (low),
  \<open>ENC_SW_RELEASED\<close> exactly when the flag was set and the pin reads released, and
  nothing otherwise, so nothing is called while the switch stays down.  When phase A
  reads low the flag is not changed and neither switch callback runs.  With the flag
  clear, three iterations in a row with phase A high and the switch pin low all return,
  and \<open>ENC_SW_PRESSED\<close> is called once in the first and not in the other two, and
  \<open>ENC_SW_RELEASED\<close> in none.
\<close>

theorem encoder_switch:
  "(PIN_ENC_A inp \<longrightarrow>
      (let s' = final_state (handle_encoder inp s); pressed = (\<not> PIN_ENC_SW inp) in
         handle_encoder inp s = Inr s'
         \<and> isSwitchPressed s' = pressed
         \<and> new_effects s s' =
             (if \<not> isSwitchPressed s \<and> pressed
              then [Callback SW_PRESSED, CON_press CON_VOL_MUTE]
              else if isSwitchPressed s \<and> \<not> pressed
              then [Callback SW_RELEASED, CON_release]
              else [])))
   \<and> (\<not> PIN_ENC_A inp \<longrightarrow>
      (let s' = final_state (handle_encoder inp s) in
         isSwitchPressed s' = isSwitchPressed s
         \<and> Callback SW_PRESSED \<notin> set (new_effects s s')
         \<and> Callback SW_RELEASED \<notin> set (new_effects s s')))
   \<and> (\<not> isSwitchPressed s
        \<and> PIN_ENC_A i1 \<and> \<not> PIN_ENC_SW i1
        \<and> PIN_ENC_A i2 \<and> \<not> PIN_ENC_SW i2
        \<and> PIN_ENC_A i3 \<and> \<not> PIN_ENC_SW i3 \<longrightarrow>
      (let s1 = final_state (loop_body i1 s);
           s2 = final_state (loop_body i2 s1);
           s3 = final_state (loop_body i3 s2)
       in run [i1, i2, i3] s = Inr s3
          \<and> count_list (callbacks (new_effects s s1)) SW_PRESSED = 1
          \<and> count_list (callbacks (new_effects s1 s2)) SW_PRESSED = 0
          \<and> count_list (callbacks (new_effects s2 s3)) SW_PRESSED = 0
          \<and> count_list (callbacks (new_effects s s1)) SW_RELEASED = 0
          \<and> count_list (callbacks (new_effects s1 s2)) SW_RELEASED = 0
          \<and> count_list (callbacks (new_effects s2 s3)) SW_RELEASED = 0))"
proof (intro conjI impI)
  assume a: "PIN_ENC_A inp"
  let ?s' = "handle_switch (PIN_ENC_SW inp) s"
  have fin: "final_state (handle_encoder inp s) = ?s'"
    using a by (simp add: handle_encoder_final)
  have ret: "handle_encoder inp s = Inr ?s'"
    using a by (simp add: handle_encoder_def)
  have fl: "isSwitchPressed ?s' = (\<not> PIN_ENC_SW inp)"
    by (rule handle_switch_fields)
  have ne: "new_effects s ?s' =
     (if \<not> isSwitchPressed s \<and> \<not> PIN_ENC_SW inp
      then [Callback SW_PRESSED, CON_press CON_VOL_MUTE]
      else if isSwitchPressed s \<and> PIN_ENC_SW inp then [Callback SW_RELEASED, CON_release]
      else [])"
    by (rule new_effectsI) (rule handle_switch_trace)
  show "let s' = final_state (handle_encoder inp s); pressed = (\<not> PIN_ENC_SW inp) in
         handle_encoder inp s = Inr s'
         \<and> isSwitchPressed s' = pressed
         \<and> new_effects s s' =
             (if \<not> isSwitchPressed s \<and> pressed
              then [Callback SW_PRESSED, CON_press CON_VOL_MUTE]
              else if isSwitchPressed s \<and> \<not> pressed
              then [Callback SW_RELEASED, CON_release]
              else [])"
    unfolding Let_def fin using ret fl ne by simp
next
  assume a: "\<not> PIN_ENC_A inp"
  let ?s' = "handle_rotation (PIN_ENC_B inp) s"
  have fin: "final_state (handle_encoder inp s) = ?s'"
    using a by (simp add: handle_encoder_final)
  have cb: "callbacks (new_effects s ?s') =
      (if PIN_ENC_B inp then [CW_ACTION, CW_RELEASED] else [CCW_ACTION, CCW_RELEASED])"
    using handle_rotation_extends handle_rotation_callbacks by (rule new_callbacks)
  have "SW_PRESSED \<notin> set (callbacks (new_effects s ?s'))"
    and "SW_RELEASED \<notin> set (callbacks (new_effects s ?s'))"
    unfolding cb by simp_all
  then have "Callback SW_PRESSED \<notin> set (new_effects s ?s')"
    and "Callback SW_RELEASED \<notin> set (new_effects s ?s')"
    by (simp_all add: callbacks_set)
  then show "let s' = final_state (handle_encoder inp s) in
         isSwitchPressed s' = isSwitchPressed s
         \<and> Callback SW_PRESSED \<notin> set (new_effects s s')
         \<and> Callback SW_RELEASED \<notin> set (new_effects s s')"
    unfolding Let_def fin by (simp add: handle_rotation_fields)
next
  assume h: "\<not> isSwitchPressed s
        \<and> PIN_ENC_A i1 \<and> \<not> PIN_ENC_SW i1
        \<and> PIN_ENC_A i2 \<and> \<not> PIN_ENC_SW i2
        \<and> PIN_ENC_A i3 \<and> \<not> PIN_ENC_SW i3"
  let ?s1 = "final_state (loop_body i1 s)"
  let ?s2 = "final_state (loop_body i2 ?s1)"
  let ?s3 = "final_state (loop_body i3 ?s2)"
  have r1: "loop_body i1 s = Inr ?s1" using h by (simp add: loop_body_idle)
  have r2: "loop_body i2 ?s1 = Inr ?s2" using h by (simp add: loop_body_idle)
  have r3: "loop_body i3 ?s2 = Inr ?s3" using h by (simp add: loop_body_idle)
  have f1: "isSwitchPressed ?s1" using h by (simp add: loop_body_switch)
  have f2: "isSwitchPressed ?s2" using h by (simp add: loop_body_switch)
  have "run [i1, i2, i3] s = run [i2, i3] ?s1" using r1 by (rule run_step)
  also have "\<dots> = run [i3] ?s2" using r2 by (rule run_step)
  also have "\<dots> = run [] ?s3" using r3 by (rule run_step)
  finally have run: "run [i1, i2, i3] s = Inr ?s3" by simp
  have c: "count_list (callbacks (new_effects t (final_state (loop_body i t)))) e =
      (if \<not> isSwitchPressed t \<and> e = SW_PRESSED then 1 else 0)"
    if "PIN_ENC_A i" "\<not> PIN_ENC_SW i" "e = SW_PRESSED \<or> e = SW_RELEASED" for t i e
    unfolding loop_body_callbacks using that by (auto simp add: count_key_rule)
  show "let s1 = final_state (loop_body i1 s);
           s2 = final_state (loop_body i2 s1);
           s3 = final_state (loop_body i3 s2)
       in run [i1, i2, i3] s = Inr s3
          \<and> count_list (callbacks (new_effects s s1)) SW_PRESSED = 1
          \<and> count_list (callbacks (new_effects s1 s2)) SW_PRESSED = 0
          \<and> count_list (callbacks (new_effects s2 s3)) SW_PRESSED = 0
          \<and> count_list (callbacks (new_effects s s1)) SW_RELEASED = 0
          \<and> count_list (callbacks (new_effects s1 s2)) SW_RELEASED = 0
          \<and> count_list (callbacks (new_effects s2 s3)) SW_RELEASED = 0"
    unfolding Let_def using run h f1 f2 by (simp add: c)
qed

text \<open>
  From the initial state: the switch pressed with the encoder at rest, one detent turned
  with the switch pressed, and three iterations with the switch held down.
\<close>

theorem encoder_switch_witness:
  "PIN_ENC_A (idle_inputs\<lparr>PIN_ENC_SW := False\<rparr>)
   \<and> new_effects initial_state
        (final_state (handle_encoder (idle_inputs\<lparr>PIN_ENC_SW := False\<rparr>) initial_state)) =
       [Callback SW_PRESSED, CON_press CON_VOL_MUTE]
   \<and> \<not> PIN_ENC_A (idle_inputs\<lparr>PIN_ENC_A := False, PIN_ENC_SW := False\<rparr>)
   \<and> \<not> isSwitchPressed (final_state
        (handle_encoder (idle_inputs\<lparr>PIN_ENC_A := False, PIN_ENC_SW := False\<rparr>) initial_state))
   \<and> \<not> isSwitchPressed initial_state
   \<and> \<not> PIN_ENC_SW (idle_inputs\<lparr>PIN_ENC_SW := False\<rparr>)
   \<and> count_list (callbacks (new_effects initial_state
        (final_state (loop_body (idle_inputs\<lparr>PIN_ENC_SW := False\<rparr>) initial_state))))
        SW_PRESSED = 1"
proof -
  let ?sw = "idle_inputs\<lparr>PIN_ENC_SW := False\<rparr>"
  let ?turn = "idle_inputs\<lparr>PIN_ENC_A := False, PIN_ENC_SW := False\<rparr>"
  have pre: "PIN_ENC_A ?sw" "\<not> PIN_ENC_SW ?sw" "\<not> PIN_ENC_A ?turn"
    "\<not> isSwitchPressed initial_state"
    by (simp_all add: idle_inputs_def initial_state_def)
  show ?thesis
    using encoder_switch [of ?sw initial_state ?sw ?sw ?sw]
      encoder_switch [of ?turn initial_state ?sw ?sw ?sw] pre
    by (simp add: Let_def)
qed

subsection \<open>Claims about start-up\<close>

text \<open>
  Claim C9, as the code has it.  When the encoder switch pin reads low after
  \<open>NEO_clearAll\<close>, the program sends the byte 127 for each of the \<open>3 * NEO_COUNT\<close> colour
  bytes (every pixel white at level 127 of 255, not at full scale), given that this number
  fits the 8-bit loop counter, and calls \<open>BOOT_now\<close>, from which control does not come
  back: \<open>HID_init\<close> is never called, no loop iteration runs whatever the later inputs
  are, and nothing is called after the bootloader entry.
\<close>

theorem boot_to_bootloader:
  assumes "3 * neo_count < 256"
  shows "main neo_count False ins =
           Inl (Bootloader (initial_state\<lparr>trace :=
             [NEO_init, CLK_config, DLY_ms 10, NEO_clearAll]
             @ replicate (3 * neo_count) (NEO_sendByte 127) @ [Enter_bootloader]\<rparr>))
         \<and> sent_bytes (trace (final_state (main neo_count False ins))) =
             replicate (3 * neo_count) 127
         \<and> HID_init \<notin> set (trace (final_state (main neo_count False ins)))
         \<and> WDT_reset \<notin> set (trace (final_state (main neo_count False ins)))
         \<and> main neo_count False ins = main_setup neo_count False"
proof -
  note m = main_boot [OF assms, of ins]
  have "sent_bytes (trace (final_state (main neo_count False ins))) =
      replicate (3 * neo_count) 127"
    unfolding m by (simp add: sent_bytes_append sent_bytes_replicate)
  moreover have "HID_init \<notin> set (trace (final_state (main neo_count False ins)))"
    and "WDT_reset \<notin> set (trace (final_state (main neo_count False ins)))"
    unfolding m by simp_all
  moreover have "main neo_count False ins = main_setup neo_count False"
    by (simp add: main_def main_setup_boot)
  ultimately show ?thesis using m by simp
qed

text \<open>The board's eighteen pixels: 54 bytes of value 127.\<close>

theorem boot_to_bootloader_witness:
  "(3::nat) * 18 < 256
   \<and> main 18 False [idle_inputs] =
       Inl (Bootloader (initial_state\<lparr>trace :=
         [NEO_init, CLK_config, DLY_ms 10, NEO_clearAll]
         @ replicate 54 (NEO_sendByte 127) @ [Enter_bootloader]\<rparr>))
   \<and> sent_bytes (trace (final_state (main 18 False [idle_inputs]))) = replicate 54 127"
proof -
  have a: "(3::nat) * 18 < 256" by simp
  show ?thesis
    using boot_to_bootloader [OF a, of "[idle_inputs]"]
    by (simp add: sent_bytes_append sent_bytes_replicate)
qed

text \<open>
  The claim as stated, all pixels full white, fails on the board's eighteen pixels: the
  54 bytes sent are not 54 bytes of the full-scale value 255.
\<close>

theorem boot_full_white_counterexample:
  "sent_bytes (trace (final_state (main 18 False []))) \<noteq> replicate 54 255"
proof -
  have "sent_bytes (trace (final_state (main 18 False []))) = replicate (3 * 18) 127"
    unfolding main_boot [of 18 "[]", simplified]
    by (simp add: sent_bytes_append sent_bytes_replicate)
  then show ?thesis by (simp add: replicate_eq_replicate)
qed

end
